theory Spec2Isabelle
  imports Main
begin

section \<open>Python helpers used by \<open>worker.py\<close>\<close>

text \<open>\<open>s.startswith(p)\<close> on strings.\<close>

definition startswith :: "string \<Rightarrow> string \<Rightarrow> bool" where
  "startswith s p = (take (length p) s = p)"

text \<open>\<open>x in y\<close> on two strings: Python's substring test.\<close>

fun str_in :: "string \<Rightarrow> string \<Rightarrow> bool" where
  "str_in x [] = (x = [])"
| "str_in x (c # y) = (startswith (c # y) x \<or> str_in x y)"

text \<open>\<open>'{}'.format(n)\<close> for an integer: its decimal digits.\<close>

definition digit_char :: "nat \<Rightarrow> char" where
  "digit_char d = char_of (48 + d)"

fun str_of_nat :: "nat \<Rightarrow> string" where
  "str_of_nat n = (if n < 10 then [digit_char n] else str_of_nat (n div 10) @ [digit_char (n mod 10)])"

declare str_of_nat.simps [simp del]

definition str_of_int :: "int \<Rightarrow> string" where
  "str_of_int i = (if i < 0 then CHR ''-'' # str_of_nat (nat (- i)) else str_of_nat (nat i))"

text \<open>\<open>os.path.join(a, b)\<close> on a POSIX system.\<close>

definition path_join :: "string \<Rightarrow> string \<Rightarrow> string" where
  "path_join a b =
     (if startswith b ''/'' then b
      else if a = [] \<or> last a = CHR ''/'' then a @ b
      else a @ ''/'' @ b)"

section \<open>Data of the worker process\<close>

text \<open>A graph variable, as far as \<open>run\<close> looks at it: \<open>v.name\<close> and the printed form of
  \<open>v.get_shape()\<close>.\<close>

record variable =
  v_name :: string
  v_shape :: string

text \<open>What the trainer constructor leaves behind: whether the trainer object has an attribute
  \<open>memory\<close> (\<open>hasattr(trainer, 'memory')\<close>) and the variable collection of the default graph
  (\<open>tf.global_variables()\<close>), which the trainer's constructor has filled.\<close>

record trainer =
  has_memory :: bool
  graph_variables :: "variable list"

text \<open>The fields of \<open>self\<close> that \<open>run\<close> reads. \<open>env_kwargs\<close> is a dictionary from keyword to
  value, each value given by its printed form. The classes \<open>env_class\<close> and \<open>trainer_class\<close>,
  \<open>cluster_spec\<close>, \<open>policy_config\<close>, \<open>trainer_kwargs\<close> and \<open>random_seed\<close> are only handed on to
  external constructors, whose behaviour is part of the world below.\<close>

record worker =
  env_kwargs :: "(string \<times> string) list"
  job_name :: string
  task :: int
  log_dir :: string
  max_train_steps :: int
  test_mode :: bool

datatype exn =
    SystemExit string
  | KeyError string
  | UnboundLocalError string
  | Exception string

text \<open>\<open>tf.ConfigProto(...)\<close> as \<open>run\<close> builds it: either device filters or the two
  parallelism caps (intra-op, inter-op).\<close>

datatype config = DeviceFilters "string list" | Parallelism nat nat

text \<open>The arguments of \<open>tf.train.Supervisor(...)\<close>. An initializer op or a readiness op is
  represented by the list of variables it ranges over, the saver by its \<open>var_list\<close>, and the
  callback \<open>init_fn\<close> by the variables of the op it runs.\<close>

record supervisor_args =
  is_chief :: bool
  logdir :: string
  saver :: "variable list"
  init_op :: "variable list"
  init_fn :: "variable list"
  ready_op :: "variable list"
  save_model_secs :: nat

text \<open>The arguments of \<open>Saver.save\<close>; the session is an opaque handle.\<close>

record save_args =
  a_sess :: nat
  a_save_path :: string
  a_global_step :: "int option"
  a_latest_filename :: "string option"
  a_meta_graph_suffix :: string
  a_write_meta_graph :: bool

section \<open>External calls, replies and traces\<close>

text \<open>Every call that leaves \<open>worker.py\<close> (TensorFlow, the environment, the trainer) is an
  event of the trace, together with what the callee did: it returned a value, raised, or never
  returned.\<close>

datatype 'a reply = Ret 'a | Exc exn | Hang

datatype ucall =
    ResetDefaultGraph
  | ImportGym
  | ClusterDef
  | ServerNew string int config
  | ServerJoin
  | EnvNewKwargs "(string \<times> string) list"
  | EnvNewGymId string
  | SummaryWriterNew string
  | SupervisorNew supervisor_args
  | ManagedSessionEnter config
  | AsDefaultEnter
  | RunSync
  | TrainerStart
  | MemoryFill
  | Process
  | EnvClose
  | SvStop
  | SaverSave save_args

text \<open>Calls whose boolean result \<open>run\<close> uses. The exit of a context manager receives the
  exception that left the block, if any, and answers whether to suppress it.\<close>

datatype bcall =
    ShouldStop
  | MemoryIsFull
  | AsDefaultExit "exn option"
  | ManagedSessionExit "exn option"

datatype level = DEBUG | WARNING

datatype event =
    U ucall "unit reply"
  | B bcall "bool reply"
  | RunGlobalStep "int reply"
  | TrainerNew "trainer reply"
  | Log level string

text \<open>The world outside the process: what each external call answers, given everything that
  has happened so far (the trace, newest event first).\<close>

record world =
  unit_reply :: "event list \<Rightarrow> ucall \<Rightarrow> unit reply"
  bool_reply :: "event list \<Rightarrow> bcall \<Rightarrow> bool reply"
  step_reply :: "event list \<Rightarrow> int reply"
  trainer_reply :: "event list \<Rightarrow> trainer reply"

text \<open>The state of a run: the trace so far (newest first) and the local variable
  \<open>global_step\<close>, unbound until its first assignment.\<close>

record state =
  trace :: "event list"
  global_step :: "int option"

text \<open>How a piece of the program ends: normally with a value, with an exception, inside an
  external call that never returns, or still looping when the loop fuel is used up.\<close>

datatype 'a res = Ok 'a | Raised exn | Blocked | OutOfFuel

type_synonym 'a prog = "state \<Rightarrow> 'a res \<times> state"

definition ret :: "'a \<Rightarrow> 'a prog" where
  "ret x s = (Ok x, s)"

definition raise :: "exn \<Rightarrow> 'a prog" where
  "raise e s = (Raised e, s)"

definition seq :: "'a prog \<Rightarrow> ('a \<Rightarrow> 'b prog) \<Rightarrow> 'b prog" where
  "seq m f s =
     (case m s of
        (Ok x, s') \<Rightarrow> f x s'
      | (Raised e, s') \<Rightarrow> (Raised e, s')
      | (Blocked, s') \<Rightarrow> (Blocked, s')
      | (OutOfFuel, s') \<Rightarrow> (OutOfFuel, s'))"

text \<open>\<open>try: m except: h\<close> with a bare \<open>except\<close>, which catches every exception.\<close>

definition try_except :: "'a prog \<Rightarrow> 'a prog \<Rightarrow> 'a prog" where
  "try_except m h s =
     (case m s of
        (Raised e, s') \<Rightarrow> h s'
      | other \<Rightarrow> other)"

text \<open>An external call asks the world for its reply, given the trace so far, records the call
  with the reply, and ends as the reply says.\<close>

definition res_of :: "'a reply \<Rightarrow> 'a res" where
  "res_of r = (case r of Ret x \<Rightarrow> Ok x | Exc e \<Rightarrow> Raised e | Hang \<Rightarrow> Blocked)"

definition call_unit :: "world \<Rightarrow> ucall \<Rightarrow> unit prog" where
  "call_unit w c s =
     (let r = unit_reply w (trace s) c in (res_of r, s\<lparr>trace := U c r # trace s\<rparr>))"

definition call_bool :: "world \<Rightarrow> bcall \<Rightarrow> bool prog" where
  "call_bool w c s =
     (let r = bool_reply w (trace s) c in (res_of r, s\<lparr>trace := B c r # trace s\<rparr>))"

definition call_trainer :: "world \<Rightarrow> trainer prog" where
  "call_trainer w s =
     (let r = trainer_reply w (trace s) in (res_of r, s\<lparr>trace := TrainerNew r # trace s\<rparr>))"

text \<open>A call of the logger puts the line into the trace; logging is taken not to fail.\<close>

definition log :: "level \<Rightarrow> string \<Rightarrow> unit prog" where
  "log l m s = (Ok (), s\<lparr>trace := Log l m # trace s\<rparr>)"

text \<open>\<open>global_step = sess.run(trainer.global_step)\<close>: the assignment happens only when the
  call returns.\<close>

definition read_global_step :: "world \<Rightarrow> unit prog" where
  "read_global_step w s =
     (let r = step_reply w (trace s); s' = s\<lparr>trace := RunGlobalStep r # trace s\<rparr> in
      case r of
        Ret g \<Rightarrow> (Ok (), s'\<lparr>global_step := Some g\<rparr>)
      | Exc e \<Rightarrow> (Raised e, s')
      | Hang \<Rightarrow> (Blocked, s'))"

text \<open>Reading the local variable \<open>global_step\<close>.\<close>

definition get_global_step :: "int prog" where
  "get_global_step s =
     (case global_step s of
        Some g \<Rightarrow> (Ok g, s)
      | None \<Rightarrow> (Raised (UnboundLocalError ''global_step''), s))"

text \<open>\<open>with cm: body\<close>. The exit of the context manager is called on every way out of the
  body that Python sees (normal end or exception); if the body raised and the exit answers
  true, the exception is suppressed and execution goes on after the block.\<close>

definition with_stmt :: "world \<Rightarrow> ucall \<Rightarrow> (exn option \<Rightarrow> bcall) \<Rightarrow> unit prog \<Rightarrow> unit prog" where
  "with_stmt w enter exit body s =
     (case call_unit w enter s of
        (Ok _, s1) \<Rightarrow>
          (case body s1 of
             (Ok _, s2) \<Rightarrow> seq (call_bool w (exit None)) (\<lambda>_. ret ()) s2
           | (Raised e, s2) \<Rightarrow>
               seq (call_bool w (exit (Some e))) (\<lambda>suppress. if suppress then ret () else raise e) s2
           | other \<Rightarrow> other)
      | other \<Rightarrow> other)"

section \<open>Log lines and other formatted strings of \<open>run\<close>\<close>

text \<open>Each definition is one format string of the source, applied to its arguments.\<close>

definition msg_ps_started :: string where
  "msg_ps_started = ''parameters_server started.''"

definition msg_making_env :: string where
  "msg_making_env = ''making environment.''"

definition msg_server_started :: "int \<Rightarrow> string" where
  "msg_server_started t = ''worker_'' @ str_of_int t @ '' tf.server started.''"

definition msg_data_master :: "int \<Rightarrow> string \<Rightarrow> string" where
  "msg_data_master t dm = ''worker_'' @ str_of_int t @ '' is data_master: '' @ dm"

definition msg_btgym_failed :: "int \<Rightarrow> string" where
  "msg_btgym_failed t = '' Worker_'' @ str_of_int t @ '' failed to make BTgym environment''"

definition msg_atari_failed :: "int \<Rightarrow> string" where
  "msg_atari_failed t = '' Worker_'' @ str_of_int t @ '' failed to make Atari Gym environment''"

definition msg_env_ok :: "int \<Rightarrow> string" where
  "msg_env_ok t = ''worker_'' @ str_of_int t @ '':envronment ok.''"

definition msg_trainer_ok :: "int \<Rightarrow> string" where
  "msg_trainer_ok t = ''worker_'' @ str_of_int t @ '':trainer ok.''"

definition msg_vars_to_save :: "int \<Rightarrow> string" where
  "msg_vars_to_save t = ''worker_'' @ str_of_int t @ '': vars_to_save:''"

definition msg_variable :: "variable \<Rightarrow> string" where
  "msg_variable v = v_name v @ '': '' @ v_shape v"

definition msg_connecting :: "int \<Rightarrow> string" where
  "msg_connecting t = ''worker_'' @ str_of_int t @ '': connecting to the parameter server... ''"

definition msg_started :: "int \<Rightarrow> int \<Rightarrow> string" where
  "msg_started t g = ''worker_'' @ str_of_int t @ '': started training at step: '' @ str_of_int g"

definition msg_reached :: "int \<Rightarrow> int \<Rightarrow> string" where
  "msg_reached t g = ''worker_'' @ str_of_int t @ '': reached '' @ str_of_int g @ '' steps, exiting.''"

text \<open>Lines 174 to 176: the session configuration and the summary directory.\<close>

definition session_config :: "worker \<Rightarrow> config" where
  "session_config self =
     DeviceFilters [''/job:ps'', ''/job:worker/task:'' @ str_of_int (task self) @ ''/cpu:0'']"

definition summary_dir :: "worker \<Rightarrow> string" where
  "summary_dir self = path_join (log_dir self) ''train'' @ ''_'' @ str_of_int (task self)"

section \<open>\<open>FastSaver.save\<close>\<close>

text \<open>The method forwards to \<open>tf.train.Saver.save\<close>, the external call \<open>SaverSave\<close>, and has
  no \<open>return\<close> statement.\<close>

definition FastSaver_save :: "world \<Rightarrow> save_args \<Rightarrow> unit prog" where
  "FastSaver_save w a =
     call_unit w (SaverSave
       \<lparr>a_sess = a_sess a,
        a_save_path = a_save_path a,
        a_global_step = a_global_step a,
        a_latest_filename = a_latest_filename a,
        a_meta_graph_suffix = a_meta_graph_suffix a,
        a_write_meta_graph = False\<rparr>)"

section \<open>\<open>Worker.run\<close>\<close>

text \<open>The parameter-server branch (lines 106 to 114).\<close>

definition run_ps :: "world \<Rightarrow> worker \<Rightarrow> unit prog" where
  "run_ps w self =
     seq (call_unit w (ServerNew (job_name self) (task self) (DeviceFilters [''/job:ps'']))) (\<lambda>_.
     seq (log DEBUG msg_ps_started) (\<lambda>_.
     call_unit w ServerJoin))"

text \<open>Making the environment (lines 128 to 146). The lookup of \<open>'data_master'\<close> for the
  log line is outside the \<open>try\<close>, the lookup of \<open>'gym_id'\<close> inside.\<close>

definition dict_get :: "(string \<times> string) list \<Rightarrow> string \<Rightarrow> string prog" where
  "dict_get d k = (case map_of d k of Some v \<Rightarrow> ret v | None \<Rightarrow> raise (KeyError k))"

definition run_make_env :: "world \<Rightarrow> worker \<Rightarrow> unit prog" where
  "run_make_env w self =
     seq (log DEBUG msg_making_env) (\<lambda>_.
     seq (if \<not> test_mode self then
            seq (dict_get (env_kwargs self) ''data_master'') (\<lambda>dm.
            seq (log DEBUG (msg_data_master (task self) dm)) (\<lambda>_.
            try_except
              (call_unit w (EnvNewKwargs (env_kwargs self)))
              (raise (SystemExit (msg_btgym_failed (task self))))))
          else
            try_except
              (seq (dict_get (env_kwargs self) ''gym_id'') (\<lambda>g. call_unit w (EnvNewGymId g)))
              (raise (SystemExit (msg_atari_failed (task self))))) (\<lambda>_.
     log DEBUG (msg_env_ok (task self))))"

text \<open>Line 160: the variables whose name does not start with \<open>"local"\<close>.\<close>

definition variables_to_save :: "variable list \<Rightarrow> variable list" where
  "variables_to_save vs = filter (\<lambda>v. \<not> startswith (v_name v) ''local'') vs"

text \<open>Lines 166 to 168.\<close>

fun log_variables :: "variable list \<Rightarrow> unit prog" where
  "log_variables [] = ret ()"
| "log_variables (v # vs) =
     seq (log DEBUG (msg_variable v)) (\<lambda>_. log_variables vs)"

text \<open>Lines 180 to 190.\<close>

definition supervisor_of :: "worker \<Rightarrow> trainer \<Rightarrow> supervisor_args" where
  "supervisor_of self tr =
     \<lparr>is_chief = (task self = 0),
      logdir = path_join (log_dir self) ''train'',
      saver = variables_to_save (graph_variables tr),
      init_op = variables_to_save (graph_variables tr),
      init_fn = graph_variables tr,
      ready_op = variables_to_save (graph_variables tr),
      save_model_secs = 300\<rparr>"

text \<open>The training loop (lines 203 to 205). Each unit of fuel pays for one evaluation of the
  loop condition; \<open>and\<close> evaluates \<open>sv.should_stop()\<close> first and the comparison only if the
  flag is unset.\<close>

fun run_loop :: "world \<Rightarrow> worker \<Rightarrow> nat \<Rightarrow> unit prog" where
  "run_loop w self 0 = (\<lambda>s. (OutOfFuel, s))"
| "run_loop w self (Suc n) =
     seq (call_bool w ShouldStop) (\<lambda>stop.
     seq (if \<not> stop then seq get_global_step (\<lambda>g. ret (g < max_train_steps self))
          else ret False) (\<lambda>go.
     if go then
       seq (call_unit w Process) (\<lambda>_.
       seq (read_global_step w) (\<lambda>_.
       run_loop w self n))
     else ret ()))"

text \<open>The body of the \<open>with\<close> block (lines 194 to 209).\<close>

definition run_session_body :: "world \<Rightarrow> worker \<Rightarrow> trainer \<Rightarrow> nat \<Rightarrow> unit prog" where
  "run_session_body w self tr fuel =
     seq (call_unit w RunSync) (\<lambda>_.
     seq (call_unit w TrainerStart) (\<lambda>_.
     seq (read_global_step w) (\<lambda>_.
     seq (if has_memory tr then
            seq (call_bool w MemoryIsFull) (\<lambda>full.
            if \<not> full then call_unit w MemoryFill else ret ())
          else ret ()) (\<lambda>_.
     seq get_global_step (\<lambda>g.
     seq (log WARNING (msg_started (task self) g)) (\<lambda>_.
     seq (run_loop w self fuel) (\<lambda>_.
     seq (call_unit w EnvClose) (\<lambda>_.
     call_unit w SvStop))))))))"

text \<open>The worker branch (lines 117 to 210).\<close>

definition run_worker :: "world \<Rightarrow> worker \<Rightarrow> nat \<Rightarrow> unit prog" where
  "run_worker w self fuel =
     seq (call_unit w (ServerNew ''worker'' (task self) (Parallelism 1 2))) (\<lambda>_.
     seq (log DEBUG (msg_server_started (task self))) (\<lambda>_.
     seq (run_make_env w self) (\<lambda>_.
     seq (call_trainer w) (\<lambda>tr.
     seq (log DEBUG (msg_trainer_ok (task self))) (\<lambda>_.
     seq (log DEBUG (msg_vars_to_save (task self))) (\<lambda>_.
     seq (log_variables (variables_to_save (graph_variables tr))) (\<lambda>_.
     seq (call_unit w (SummaryWriterNew (summary_dir self))) (\<lambda>_.
     seq (call_unit w (SupervisorNew (supervisor_of self tr))) (\<lambda>_.
     seq (log DEBUG (msg_connecting (task self))) (\<lambda>_.
     seq (with_stmt w (ManagedSessionEnter (session_config self)) ManagedSessionExit
            (with_stmt w AsDefaultEnter AsDefaultExit
               (run_session_body w self tr fuel))) (\<lambda>_.
     seq get_global_step (\<lambda>g.
     log WARNING (msg_reached (task self) g)))))))))))))"

text \<open>\<open>Worker.run\<close> (lines 93 to 210), started on the empty trace with \<open>global_step\<close>
  unbound. \<open>fuel\<close> bounds the number of times the loop condition is evaluated.\<close>

definition run :: "world \<Rightarrow> worker \<Rightarrow> nat \<Rightarrow> unit res \<times> state" where
  "run w self fuel =
     seq (call_unit w ResetDefaultGraph) (\<lambda>_.
     seq (if test_mode self then call_unit w ImportGym else ret ()) (\<lambda>_.
     seq (call_unit w ClusterDef) (\<lambda>_.
     if str_in (job_name self) ''ps'' then run_ps w self
     else run_worker w self fuel)))
     \<lparr>trace = [], global_step = None\<rparr>"

section \<open>Reading traces\<close>

text \<open>The external calls of a trace that return nothing, newest first.\<close>

fun ucalls :: "event list \<Rightarrow> ucall list" where
  "ucalls [] = []"
| "ucalls (U c r # h) = c # ucalls h"
| "ucalls (e # h) = ucalls h"

text \<open>The value that the most recent successful read of the shared step counter returned.\<close>

fun last_step :: "event list \<Rightarrow> int option" where
  "last_step [] = None"
| "last_step (RunGlobalStep (Ret v) # h) = Some v"
| "last_step (e # h) = last_step h"

text \<open>The trainer that the most recent successful trainer construction returned.\<close>

fun trainer_of :: "event list \<Rightarrow> trainer option" where
  "trainer_of [] = None"
| "trainer_of (TrainerNew (Ret tr) # h) = Some tr"
| "trainer_of (e # h) = trainer_of h"

text \<open>An event whose callee returned normally (a log line always does).\<close>

fun returned :: "event \<Rightarrow> bool" where
  "returned (U c r) = (r = Ret ())"
| "returned (B c r) = (case r of Ret b \<Rightarrow> True | Exc e \<Rightarrow> False | Hang \<Rightarrow> False)"
| "returned (RunGlobalStep r) = (case r of Ret v \<Rightarrow> True | Exc e \<Rightarrow> False | Hang \<Rightarrow> False)"
| "returned (TrainerNew r) = (case r of Ret t \<Rightarrow> True | Exc e \<Rightarrow> False | Hang \<Rightarrow> False)"
| "returned (Log l m) = True"

text \<open>\<open>each_event Q h\<close>: every event of the trace satisfies \<open>Q\<close> together with the history
  that preceded it.\<close>

fun each_event :: "(event \<Rightarrow> event list \<Rightarrow> bool) \<Rightarrow> event list \<Rightarrow> bool" where
  "each_event Q [] = True"
| "each_event Q (e # h) = (Q e h \<and> each_event Q h)"

text \<open>The log lines of lines 166 to 168, newest first.\<close>

definition var_logs :: "variable list \<Rightarrow> event list" where
  "var_logs vs = rev (map (\<lambda>v. Log DEBUG (msg_variable v)) vs)"

text \<open>The exit status of the process for an outcome of \<open>run\<close>, by the rule of Python's
  \<open>multiprocessing\<close>: 0 after a normal return; an uncaught exception, and likewise a
  \<open>SystemExit\<close> that carries a string (which is printed to standard error), gives 1. A run
  that has not ended has no exit status.\<close>

definition exit_status :: "unit res \<Rightarrow> int option" where
  "exit_status r = (case r of Ok x \<Rightarrow> Some 0 | Raised e \<Rightarrow> Some 1 | Blocked \<Rightarrow> None | OutOfFuel \<Rightarrow> None)"

section \<open>Weakest preconditions\<close>

text \<open>\<open>wp m Q s\<close>: running \<open>m\<close> from \<open>s\<close> ends in an outcome and a state that satisfy \<open>Q\<close>.\<close>

definition wp :: "'a prog \<Rightarrow> ('a res \<Rightarrow> state \<Rightarrow> bool) \<Rightarrow> state \<Rightarrow> bool" where
  "wp m Q s = Q (fst (m s)) (snd (m s))"

text \<open>What must hold after the guarded part of a \<open>try\<close>, and after the body of a \<open>with\<close>, for
  \<open>Q\<close> to hold after the statements \<open>f\<close> that follow.\<close>

definition try_post ::
  "('a \<Rightarrow> 'b prog) \<Rightarrow> 'a prog \<Rightarrow> ('b res \<Rightarrow> state \<Rightarrow> bool) \<Rightarrow> 'a res \<Rightarrow> state \<Rightarrow> bool" where
  "try_post f h Q r s =
     (case r of
        Ok x \<Rightarrow> wp (f x) Q s
      | Raised e \<Rightarrow> wp (seq h f) Q s
      | Blocked \<Rightarrow> Q Blocked s
      | OutOfFuel \<Rightarrow> Q OutOfFuel s)"

definition exit_post ::
  "world \<Rightarrow> (exn option \<Rightarrow> bcall) \<Rightarrow> (unit \<Rightarrow> 'b prog) \<Rightarrow> ('b res \<Rightarrow> state \<Rightarrow> bool) \<Rightarrow>
   unit res \<Rightarrow> state \<Rightarrow> bool" where
  "exit_post w ex f Q r s =
     (case r of
        Ok x \<Rightarrow> wp (seq (call_bool w (ex None)) (\<lambda>_. f ())) Q s
      | Raised e \<Rightarrow>
          wp (seq (call_bool w (ex (Some e))) (\<lambda>suppress. if suppress then f () else raise e)) Q s
      | Blocked \<Rightarrow> Q Blocked s
      | OutOfFuel \<Rightarrow> Q OutOfFuel s)"

section \<open>Sample worlds and workers\<close>

definition var_g :: variable where
  "var_g = \<lparr>v_name = ''global/w'', v_shape = ''(2,)''\<rparr>"

definition var_l :: variable where
  "var_l = \<lparr>v_name = ''local/w'', v_shape = ''(2,)''\<rparr>"

definition trainer0 :: trainer where
  "trainer0 = \<lparr>has_memory = True, graph_variables = [var_g, var_l]\<rparr>"

text \<open>A world in which every call returns: the stop flag is never set, the replay memory is not
  full, and the shared step counter reads 0 until the first training iteration and 1 after.\<close>

definition nominal_world :: world where
  "nominal_world =
     \<lparr>unit_reply = (\<lambda>h c. Ret ()),
      bool_reply = (\<lambda>h c. Ret False),
      step_reply = (\<lambda>h. case h of U Process r # h' \<Rightarrow> Ret 1 | _ \<Rightarrow> Ret 0),
      trainer_reply = (\<lambda>h. Ret trainer0)\<rparr>"

text \<open>Rank 0 in the worker role, production mode, one training step.\<close>

definition worker0 :: worker where
  "worker0 =
     \<lparr>env_kwargs = [(''data_master'', ''True'')], job_name = ''worker'', task = 0,
      log_dir = ''/tmp/log'', max_train_steps = 1, test_mode = False\<rparr>"

text \<open>The run of \<open>worker0\<close> in the nominal world, in four pieces (oldest last): everything up
  to entering the session, the warm-up before the loop, and what follows the single training
  iteration.\<close>

definition nominal_prologue :: "event list" where
  "nominal_prologue =
     [U AsDefaultEnter (Ret ()),
      U (ManagedSessionEnter (session_config worker0)) (Ret ()),
      Log DEBUG (msg_connecting 0),
      U (SupervisorNew (supervisor_of worker0 trainer0)) (Ret ()),
      U (SummaryWriterNew (summary_dir worker0)) (Ret ()),
      Log DEBUG (msg_variable var_g),
      Log DEBUG (msg_vars_to_save 0), Log DEBUG (msg_trainer_ok 0),
      TrainerNew (Ret trainer0),
      Log DEBUG (msg_env_ok 0),
      U (EnvNewKwargs [(''data_master'', ''True'')]) (Ret ()),
      Log DEBUG (msg_data_master 0 ''True''),
      Log DEBUG msg_making_env,
      Log DEBUG (msg_server_started 0),
      U (ServerNew ''worker'' 0 (Parallelism 1 2)) (Ret ()),
      U ClusterDef (Ret ()), U ResetDefaultGraph (Ret ())]"

definition nominal_warmup :: "event list" where
  "nominal_warmup =
     [Log WARNING (msg_started 0 0),
      U MemoryFill (Ret ()), B MemoryIsFull (Ret False),
      RunGlobalStep (Ret 0), U TrainerStart (Ret ()), U RunSync (Ret ())]"

definition nominal_epilogue :: "event list" where
  "nominal_epilogue =
     [Log WARNING (msg_reached 0 1),
      B (ManagedSessionExit None) (Ret False),
      B (AsDefaultExit None) (Ret False),
      U SvStop (Ret ()), U EnvClose (Ret ()),
      B ShouldStop (Ret False),
      RunGlobalStep (Ret 1)]"

definition nominal_trace :: "event list" where
  "nominal_trace =
     nominal_epilogue @ U Process (Ret ()) # B ShouldStop (Ret False) # nominal_warmup
       @ nominal_prologue"

section \<open>Properties of single events, given their history\<close>

text \<open>A call of \<open>tf.train.Supervisor\<close> gets the arguments built from the trainer that the
  preceding trainer construction returned.\<close>

definition sup_event_ok :: "worker \<Rightarrow> event \<Rightarrow> event list \<Rightarrow> bool" where
  "sup_event_ok self e pre =
     (\<forall>a r. e = U (SupervisorNew a) r \<longrightarrow>
        (\<exists>tr. trainer_of pre = Some tr \<and> a = supervisor_of self tr))"

text \<open>No call of \<open>Saver.save\<close> in a trace.\<close>

definition no_save :: "event list \<Rightarrow> bool" where
  "no_save h = (\<forall>a. SaverSave a \<notin> set (ucalls h))"

text \<open>A training iteration directly follows an unset stop flag, and the last value read from
  the step counter is below \<open>m\<close>.\<close>

definition guard_event :: "int \<Rightarrow> event \<Rightarrow> event list \<Rightarrow> bool" where
  "guard_event m e pre =
     (\<forall>r. e = U Process r \<longrightarrow>
        (\<exists>pre'. pre = B ShouldStop (Ret False) # pre') \<and> (\<exists>v. last_step pre = Some v \<and> v < m))"

text \<open>The value that the oldest successful read of the step counter returned: the value of
  \<open>global_step\<close> when the loop is entered.\<close>

fun first_step :: "event list \<Rightarrow> int option" where
  "first_step [] = None"
| "first_step (e # h) = (case first_step h of Some v \<Rightarrow> Some v | None \<Rightarrow> last_step [e])"

text \<open>The step counter has been read successfully at least once.\<close>

definition entered :: "event list \<Rightarrow> bool" where
  "entered h = (first_step h \<noteq> None)"

text \<open>The first value read had already reached \<open>m\<close>.\<close>

definition done_at_entry :: "int \<Rightarrow> event list \<Rightarrow> bool" where
  "done_at_entry m h = (\<exists>v. first_step h = Some v \<and> m \<le> v)"

text \<open>The loop invariant for that case: no iteration so far, and \<open>global_step\<close> still holds
  a value that has reached \<open>m\<close>.\<close>

definition entry_inv :: "int \<Rightarrow> event list \<Rightarrow> int option \<Rightarrow> bool" where
  "entry_inv m h g =
     (entered h \<and>
      (done_at_entry m h \<longrightarrow> Process \<notin> set (ucalls h) \<and> (\<exists>v. g = Some v \<and> m \<le> v)))"

text \<open>The answers of \<open>trainer.memory.is_full()\<close> in a trace, newest first.\<close>

fun full_answers :: "event list \<Rightarrow> bool list" where
  "full_answers [] = []"
| "full_answers (B MemoryIsFull (Ret b) # h) = b # full_answers h"
| "full_answers (e # h) = full_answers h"

text \<open>A call of \<open>trainer.memory.fill()\<close> directly follows \<open>is_full()\<close> answering false, which
  follows the first read of the step counter, \<open>trainer.start\<close> and the run of \<open>trainer.sync\<close>;
  no training iteration and no other \<open>fill()\<close> precede it.\<close>

definition fill_event :: "event \<Rightarrow> event list \<Rightarrow> bool" where
  "fill_event e pre =
     (\<forall>r. e = U MemoryFill r \<longrightarrow>
        (\<exists>v pre'. pre = B MemoryIsFull (Ret False) # RunGlobalStep (Ret v)
                          # U TrainerStart (Ret ()) # U RunSync (Ret ()) # pre') \<and>
        Process \<notin> set (ucalls pre) \<and> MemoryFill \<notin> set (ucalls pre))"

text \<open>Every \<open>fill()\<close> is such a call; an answer false is followed by a \<open>fill()\<close>, and with an
  answer true there is none.\<close>

definition fill_spec :: "event list \<Rightarrow> bool" where
  "fill_spec h =
     (each_event fill_event h \<and>
      (False \<in> set (full_answers h) \<longrightarrow> MemoryFill \<in> set (ucalls h)) \<and>
      (True \<in> set (full_answers h) \<longrightarrow> MemoryFill \<notin> set (ucalls h)))"

text \<open>A world like the nominal one, except that the replay memory reports that it is full.\<close>

definition full_world :: world where
  "full_world = nominal_world\<lparr>bool_reply := (\<lambda>h c. Ret (c = MemoryIsFull))\<rparr>"

text \<open>The newest event of a trace is a training iteration that returned.\<close>

fun after_process :: "event list \<Rightarrow> bool" where
  "after_process (U Process (Ret u) # h) = True"
| "after_process h = False"

text \<open>The event after a training iteration that returned is a read of the step counter.\<close>

definition read_event :: "event \<Rightarrow> event list \<Rightarrow> bool" where
  "read_event e pre = (after_process pre \<longrightarrow> (\<exists>r. e = RunGlobalStep r))"

text \<open>The loop invariant: \<open>global_step\<close> holds the last value read, and every iteration so far
  has been followed by its read.\<close>

definition step_inv :: "event list \<Rightarrow> int option \<Rightarrow> bool" where
  "step_inv h g = (last_step h = g \<and> each_event read_event h \<and> \<not> after_process h)"

text \<open>The same at the end of the run; and a worker's run that returns has just logged the
  value of \<open>global_step\<close> as the number of steps reached.\<close>

definition step_spec :: "worker \<Rightarrow> unit res \<Rightarrow> state \<Rightarrow> bool" where
  "step_spec self r s =
     (step_inv (trace s) (global_step s) \<and>
      (\<not> str_in (job_name self) ''ps'' \<and> r = Ok () \<longrightarrow>
         (\<exists>v pre. global_step s = Some v \<and>
            trace s = Log WARNING (msg_reached (task self) v) # pre)))"

text \<open>\<open>env.close()\<close> raised somewhere in the trace.\<close>

fun close_failed :: "event list \<Rightarrow> bool" where
  "close_failed [] = False"
| "close_failed (U EnvClose (Exc x) # h) = True"
| "close_failed (e # h) = close_failed h"

text \<open>The exception of \<open>env.close()\<close>, if raising it is the newest event.\<close>

fun after_failed_close :: "event list \<Rightarrow> exn option" where
  "after_failed_close (U EnvClose (Exc x) # h) = Some x"
| "after_failed_close h = None"

text \<open>The loop condition has just been evaluated, and it was false: the stop flag was set,
  or the last value read from the step counter had reached \<open>m\<close>.\<close>

fun loop_exited :: "int \<Rightarrow> event list \<Rightarrow> bool" where
  "loop_exited m (B ShouldStop (Ret b) # pre) =
     (b \<or> (case last_step pre of Some v \<Rightarrow> m \<le> v | None \<Rightarrow> False))"
| "loop_exited m pre = False"

text \<open>A call of \<open>env.close()\<close> comes after calls that all returned, is the first such call, and
  directly follows a loop condition that evaluated to false.\<close>

definition close_event :: "int \<Rightarrow> event \<Rightarrow> event list \<Rightarrow> bool" where
  "close_event m e pre =
     (\<forall>r. e = U EnvClose r \<longrightarrow>
        list_all returned pre \<and> EnvClose \<notin> set (ucalls pre) \<and> loop_exited m pre)"

text \<open>The event after a failed \<open>env.close()\<close> is the exit of the inner context manager,
  which receives the exception.\<close>

definition escalate_event :: "event \<Rightarrow> event list \<Rightarrow> bool" where
  "escalate_event e pre =
     (\<forall>x. after_failed_close pre = Some x \<longrightarrow> (\<exists>r. e = B (AsDefaultExit (Some x)) r))"

text \<open>The loop invariant: every call so far has returned, and neither \<open>env.close()\<close> nor
  \<open>sv.stop()\<close> has been called.\<close>

definition close_inv :: "int \<Rightarrow> event list \<Rightarrow> int option \<Rightarrow> bool" where
  "close_inv m h g =
     (last_step h = g \<and> list_all returned h \<and> EnvClose \<notin> set (ucalls h) \<and>
      SvStop \<notin> set (ucalls h) \<and> \<not> close_failed h \<and>
      each_event (close_event m) h \<and> each_event escalate_event h \<and>
      after_failed_close h = None)"

text \<open>The same at the end of the run: a failed \<open>env.close()\<close> is never the last event and is
  never followed by \<open>sv.stop()\<close>; a worker's run that returns, with every call returned,
  has closed the environment.\<close>

definition close_spec :: "worker \<Rightarrow> unit res \<Rightarrow> state \<Rightarrow> bool" where
  "close_spec self r s =
     (each_event (close_event (max_train_steps self)) (trace s) \<and>
      each_event escalate_event (trace s) \<and>
      after_failed_close (trace s) = None \<and>
      (close_failed (trace s) \<longrightarrow> SvStop \<notin> set (ucalls (trace s))) \<and>
      (\<not> str_in (job_name self) ''ps'' \<and> r = Ok () \<and> list_all returned (trace s) \<longrightarrow>
         EnvClose \<in> set (ucalls (trace s))))"

text \<open>Worlds like the nominal one, except that every training iteration, or the closing of the
  environment, raises.\<close>

definition process_fail_world :: world where
  "process_fail_world =
     nominal_world\<lparr>unit_reply :=
       (\<lambda>h c. case c of Process \<Rightarrow> Exc (Exception ''iteration failed'') | _ \<Rightarrow> Ret ())\<rparr>"

definition close_fail_world :: world where
  "close_fail_world =
     nominal_world\<lparr>unit_reply :=
       (\<lambda>h c. case c of EnvClose \<Rightarrow> Exc (Exception ''close failed'') | _ \<Rightarrow> Ret ())\<rparr>"

text \<open>A construction of the environment, in either mode.\<close>

fun is_env_new :: "ucall \<Rightarrow> bool" where
  "is_env_new (EnvNewKwargs k) = True"
| "is_env_new (EnvNewGymId i) = True"
| "is_env_new c = False"

text \<open>What a run in the parameter-server role does: no training iteration, no environment, no
  trainer; and once the server is up, the newest event is \<open>server.join()\<close>, whose outcome is
  the outcome of the run.\<close>

definition ps_spec :: "worker \<Rightarrow> unit res \<Rightarrow> state \<Rightarrow> bool" where
  "ps_spec self r s =
     (Process \<notin> set (ucalls (trace s)) \<and>
      filter is_env_new (ucalls (trace s)) = [] \<and>
      (\<forall>rt. TrainerNew rt \<notin> set (trace s)) \<and>
      (\<forall>j t c. U (ServerNew j t c) (Ret ()) \<in> set (trace s) \<longrightarrow>
         (\<exists>rj pre. trace s = U ServerJoin rj # pre \<and> r = res_of rj)))"

text \<open>A world in which \<open>server.join()\<close> never returns, and rank 0 in the parameter-server role.\<close>

definition ps_world :: world where
  "ps_world =
     nominal_world\<lparr>unit_reply := (\<lambda>h c. case c of ServerJoin \<Rightarrow> Hang | _ \<Rightarrow> Ret ())\<rparr>"

definition worker_ps :: worker where
  "worker_ps = worker0\<lparr>job_name := ''ps''\<rparr>"

text \<open>A construction of the environment raised somewhere in the trace.\<close>

fun env_failed :: "event list \<Rightarrow> bool" where
  "env_failed [] = False"
| "env_failed (U (EnvNewKwargs k) (Exc x) # h) = True"
| "env_failed (U (EnvNewGymId i) (Exc x) # h) = True"
| "env_failed (e # h) = env_failed h"

text \<open>If it did, the run ends with \<open>SystemExit\<close> and the message of the mode; the failed
  construction is the newest event and the only construction, and there is no trainer, no
  session and no training iteration.\<close>

definition env_spec :: "worker \<Rightarrow> unit res \<Rightarrow> state \<Rightarrow> bool" where
  "env_spec self r s =
     (env_failed (trace s) \<longrightarrow>
        r = Raised (SystemExit (if test_mode self then msg_atari_failed (task self)
                                 else msg_btgym_failed (task self))) \<and>
        (case trace s of
           U c (Exc x) # pre \<Rightarrow> is_env_new c \<and> filter is_env_new (ucalls pre) = []
         | _ \<Rightarrow> False) \<and>
        (\<forall>rt. TrainerNew rt \<notin> set (trace s)) \<and>
        (\<forall>cfg. ManagedSessionEnter cfg \<notin> set (ucalls (trace s))) \<and>
        Process \<notin> set (ucalls (trace s)))"

text \<open>A world in which the construction of the BTgym environment raises.\<close>

definition env_fail_world :: world where
  "env_fail_world =
     nominal_world\<lparr>unit_reply :=
       (\<lambda>h c. case c of EnvNewKwargs k \<Rightarrow> Exc (Exception ''no data'') | _ \<Rightarrow> Ret ())\<rparr>"

text \<open>The cluster definition has been built.\<close>

fun cluster_defined :: "event list \<Rightarrow> bool" where
  "cluster_defined [] = False"
| "cluster_defined (U ClusterDef (Ret u) # h) = True"
| "cluster_defined (e # h) = cluster_defined h"

text \<open>Once the cluster definition is built, a server with job name \<open>worker\<close> is started.\<close>

definition server_spec :: "worker \<Rightarrow> event list \<Rightarrow> bool" where
  "server_spec self h =
     (cluster_defined h \<longrightarrow>
        ServerNew ''worker'' (task self) (Parallelism 1 2) \<in> set (ucalls h))"


section \<open>Reading a number back from a message\<close>

text \<open>The value of a decimal digit, and of a decimal numeral with an optional minus sign,
  as Python's \<open>int(s)\<close> reads it.\<close>

definition digit_of :: "char \<Rightarrow> nat" where
  "digit_of c = of_char c - 48"

definition nat_of_str :: "string \<Rightarrow> nat" where
  "nat_of_str s = foldl (\<lambda>a c. 10 * a + digit_of c) 0 s"

definition int_of_str :: "string \<Rightarrow> int" where
  "int_of_str s =
     (case s of
        [] \<Rightarrow> 0
      | c # ds \<Rightarrow> if c = CHR ''-'' then - int (nat_of_str ds) else int (nat_of_str s))"

text \<open>The rank that the text of the fatal error names: the numeral between the eight
  characters \<open> Worker_\<close> and the next blank.\<close>

definition rank_in_failure :: "string \<Rightarrow> int" where
  "rank_in_failure m = int_of_str (takeWhile (\<lambda>c. c \<noteq> CHR '' '') (drop 8 m))"

text \<open>The number of steps that the final log line reports: the numeral between the ten
  characters \<open>: reached \<close>, which follow the rank, and the next blank.\<close>

definition steps_in_final_log :: "string \<Rightarrow> int" where
  "steps_in_final_log m =
     int_of_str (takeWhile (\<lambda>c. c \<noteq> CHR '' '')
       (drop 10 (dropWhile (\<lambda>c. c \<noteq> CHR '':'') (drop 7 m))))"
section \<open>Rules for stepping through \<open>run\<close>\<close>

lemma wp_seq_seq: "wp (seq m (\<lambda>x. seq (k x) f)) Q s \<Longrightarrow> wp (seq (seq m k) f) Q s"
  by (simp add: wp_def seq_def split: prod.splits res.splits)

lemma wp_seq_ret: "wp (f x) Q s \<Longrightarrow> wp (seq (ret x) f) Q s"
  by (simp add: wp_def seq_def ret_def)

lemma wp_seq_raise: "Q (Raised e) s \<Longrightarrow> wp (seq (raise e) f) Q s"
  by (simp add: wp_def seq_def raise_def)

lemma wp_ret: "Q (Ok x) s \<Longrightarrow> wp (ret x) Q s"
  by (simp add: wp_def ret_def)

lemma wp_raise: "Q (Raised e) s \<Longrightarrow> wp (raise e) Q s"
  by (simp add: wp_def raise_def)

lemma wp_seq_if:
  "(b \<Longrightarrow> wp (seq m1 f) Q s) \<Longrightarrow> (\<not> b \<Longrightarrow> wp (seq m2 f) Q s) \<Longrightarrow>
   wp (seq (if b then m1 else m2) f) Q s"
  by simp

lemma wp_if:
  "(b \<Longrightarrow> wp m1 Q s) \<Longrightarrow> (\<not> b \<Longrightarrow> wp m2 Q s) \<Longrightarrow> wp (if b then m1 else m2) Q s"
  by simp

lemma wp_seq_log:
  "wp (f ()) Q \<lparr>trace = Log l m # h, global_step = g\<rparr> \<Longrightarrow>
   wp (seq (log l m) f) Q \<lparr>trace = h, global_step = g\<rparr>"
  by (simp add: wp_def seq_def log_def)

lemma wp_log:
  "Q (Ok ()) \<lparr>trace = Log l m # h, global_step = g\<rparr> \<Longrightarrow>
   wp (log l m) Q \<lparr>trace = h, global_step = g\<rparr>"
  by (simp add: wp_def log_def)

lemma wp_seq_call_unit:
  "(\<And>e. Q (Raised e) \<lparr>trace = U c (Exc e) # h, global_step = g\<rparr>) \<Longrightarrow>
   Q Blocked \<lparr>trace = U c Hang # h, global_step = g\<rparr> \<Longrightarrow>
   wp (f ()) Q \<lparr>trace = U c (Ret ()) # h, global_step = g\<rparr> \<Longrightarrow>
   wp (seq (call_unit w c) f) Q \<lparr>trace = h, global_step = g\<rparr>"
  by (simp add: wp_def seq_def call_unit_def res_of_def Let_def split: reply.splits)

lemma wp_call_unit:
  "(\<And>e. Q (Raised e) \<lparr>trace = U c (Exc e) # h, global_step = g\<rparr>) \<Longrightarrow>
   Q Blocked \<lparr>trace = U c Hang # h, global_step = g\<rparr> \<Longrightarrow>
   Q (Ok ()) \<lparr>trace = U c (Ret ()) # h, global_step = g\<rparr> \<Longrightarrow>
   wp (call_unit w c) Q \<lparr>trace = h, global_step = g\<rparr>"
  by (simp add: wp_def call_unit_def res_of_def Let_def split: reply.splits)

lemma wp_seq_call_bool:
  "(\<And>e. Q (Raised e) \<lparr>trace = B c (Exc e) # h, global_step = g\<rparr>) \<Longrightarrow>
   Q Blocked \<lparr>trace = B c Hang # h, global_step = g\<rparr> \<Longrightarrow>
   (\<And>b. wp (f b) Q \<lparr>trace = B c (Ret b) # h, global_step = g\<rparr>) \<Longrightarrow>
   wp (seq (call_bool w c) f) Q \<lparr>trace = h, global_step = g\<rparr>"
  by (simp add: wp_def seq_def call_bool_def res_of_def Let_def split: reply.splits)

lemma wp_seq_call_trainer:
  "(\<And>e. Q (Raised e) \<lparr>trace = TrainerNew (Exc e) # h, global_step = g\<rparr>) \<Longrightarrow>
   Q Blocked \<lparr>trace = TrainerNew Hang # h, global_step = g\<rparr> \<Longrightarrow>
   (\<And>tr. wp (f tr) Q \<lparr>trace = TrainerNew (Ret tr) # h, global_step = g\<rparr>) \<Longrightarrow>
   wp (seq (call_trainer w) f) Q \<lparr>trace = h, global_step = g\<rparr>"
  by (simp add: wp_def seq_def call_trainer_def res_of_def Let_def split: reply.splits)

lemma wp_seq_read_global_step:
  "(\<And>e. Q (Raised e) \<lparr>trace = RunGlobalStep (Exc e) # h, global_step = g\<rparr>) \<Longrightarrow>
   Q Blocked \<lparr>trace = RunGlobalStep Hang # h, global_step = g\<rparr> \<Longrightarrow>
   (\<And>v. wp (f ()) Q \<lparr>trace = RunGlobalStep (Ret v) # h, global_step = Some v\<rparr>) \<Longrightarrow>
   wp (seq (read_global_step w) f) Q \<lparr>trace = h, global_step = g\<rparr>"
  by (simp add: wp_def seq_def read_global_step_def Let_def split: reply.splits)

lemma wp_seq_get_global_step:
  "(g = None \<Longrightarrow>
      Q (Raised (UnboundLocalError ''global_step'')) \<lparr>trace = h, global_step = g\<rparr>) \<Longrightarrow>
   (\<And>v. g = Some v \<Longrightarrow> wp (f v) Q \<lparr>trace = h, global_step = g\<rparr>) \<Longrightarrow>
   wp (seq get_global_step f) Q \<lparr>trace = h, global_step = g\<rparr>"
  by (simp add: wp_def seq_def get_global_step_def split: option.splits)

lemma wp_seq_dict_get:
  "(map_of d k = None \<Longrightarrow> Q (Raised (KeyError k)) s) \<Longrightarrow>
   (\<And>v. map_of d k = Some v \<Longrightarrow> wp (f v) Q s) \<Longrightarrow>
   wp (seq (dict_get d k) f) Q s"
  by (simp add: wp_def seq_def dict_get_def ret_def raise_def split: option.splits)

lemma wp_seq_try_except:
  assumes "wp m (try_post f h Q) s"
  shows "wp (seq (try_except m h) f) Q s"
proof (cases "m s")
  case (Pair r s')
  with assms show ?thesis
    by (cases r) (simp_all add: wp_def seq_def try_except_def try_post_def)
qed

lemma try_post_intros:
  "wp (f x) Q s \<Longrightarrow> try_post f h Q (Ok x) s"
  "wp (seq h f) Q s \<Longrightarrow> try_post f h Q (Raised e) s"
  "Q Blocked s \<Longrightarrow> try_post f h Q Blocked s"
  "Q OutOfFuel s \<Longrightarrow> try_post f h Q OutOfFuel s"
  by (simp_all add: try_post_def)

lemma wp_seq_with_stmt:
  assumes "\<And>e. Q (Raised e) \<lparr>trace = U en (Exc e) # h, global_step = g\<rparr>"
    and "Q Blocked \<lparr>trace = U en Hang # h, global_step = g\<rparr>"
    and "wp body (exit_post w ex f Q) \<lparr>trace = U en (Ret ()) # h, global_step = g\<rparr>"
  shows "wp (seq (with_stmt w en ex body) f) Q \<lparr>trace = h, global_step = g\<rparr>"
proof (cases "unit_reply w h en")
  case (Ret u)
  obtain r s' where b: "body \<lparr>trace = U en (Ret ()) # h, global_step = g\<rparr> = (r, s')"
    by (cases "body \<lparr>trace = U en (Ret ()) # h, global_step = g\<rparr>")
  from assms(3) b Ret show ?thesis
    by (cases r; cases "bool_reply w (trace s') (ex None)";
        auto simp: wp_def seq_def with_stmt_def call_unit_def call_bool_def res_of_def Let_def
          ret_def raise_def exit_post_def split: reply.splits)
next
  case (Exc e)
  with assms(1)[of e] show ?thesis
    by (simp add: wp_def seq_def with_stmt_def call_unit_def res_of_def Let_def)
next
  case Hang
  with assms(2) show ?thesis
    by (simp add: wp_def seq_def with_stmt_def call_unit_def res_of_def Let_def)
qed

lemma exit_post_intros:
  "wp (seq (call_bool w (ex None)) (\<lambda>_. f ())) Q s \<Longrightarrow> exit_post w ex f Q (Ok x) s"
  "wp (seq (call_bool w (ex (Some e))) (\<lambda>suppress. if suppress then f () else raise e)) Q s \<Longrightarrow>
   exit_post w ex f Q (Raised e) s"
  "Q Blocked s \<Longrightarrow> exit_post w ex f Q Blocked s"
  "Q OutOfFuel s \<Longrightarrow> exit_post w ex f Q OutOfFuel s"
  by (simp_all add: exit_post_def)

lemma wp_with_stmt:
  assumes "wp (seq (with_stmt w en ex body) ret) Q s"
  shows "wp (with_stmt w en ex body) Q s"
proof (cases "with_stmt w en ex body s")
  case (Pair r s')
  with assms show ?thesis
    by (cases r) (simp_all add: wp_def seq_def ret_def)
qed

lemma wp_seq_log_variables:
  "wp (f ()) Q \<lparr>trace = var_logs vs @ h, global_step = g\<rparr> \<Longrightarrow>
   wp (seq (log_variables vs) f) Q \<lparr>trace = h, global_step = g\<rparr>"
proof (induction vs arbitrary: h)
  case Nil
  then show ?case by (simp add: wp_def seq_def ret_def var_logs_def)
next
  case (Cons v vs)
  have "wp (seq (log_variables vs) f) Q \<lparr>trace = Log DEBUG (msg_variable v) # h, global_step = g\<rparr>"
    using Cons.prems by (intro Cons.IH) (simp add: var_logs_def)
  then show ?case by (simp add: wp_def seq_def log_def)
qed

text \<open>The loop, with an invariant \<open>I\<close> of the trace and of \<open>global_step\<close> at the loop head.\<close>

lemma wp_run_loop:
  assumes inv: "I h g"
    and step: "\<And>h v v'. I h (Some v) \<Longrightarrow> v < max_train_steps self \<Longrightarrow>
        I (RunGlobalStep (Ret v') # U Process (Ret ()) # B ShouldStop (Ret False) # h) (Some v')"
    and exit_stop: "\<And>h g. I h g \<Longrightarrow>
        wp (f ()) Q \<lparr>trace = B ShouldStop (Ret True) # h, global_step = g\<rparr>"
    and exit_max: "\<And>h v. I h (Some v) \<Longrightarrow> \<not> v < max_train_steps self \<Longrightarrow>
        wp (f ()) Q \<lparr>trace = B ShouldStop (Ret False) # h, global_step = Some v\<rparr>"
    and fuel: "\<And>h g. I h g \<Longrightarrow> Q OutOfFuel \<lparr>trace = h, global_step = g\<rparr>"
    and stop_exc: "\<And>h g e. I h g \<Longrightarrow>
        Q (Raised e) \<lparr>trace = B ShouldStop (Exc e) # h, global_step = g\<rparr>"
    and stop_hang: "\<And>h g. I h g \<Longrightarrow>
        Q Blocked \<lparr>trace = B ShouldStop Hang # h, global_step = g\<rparr>"
    and unbound: "\<And>h. I h None \<Longrightarrow>
        Q (Raised (UnboundLocalError ''global_step''))
          \<lparr>trace = B ShouldStop (Ret False) # h, global_step = None\<rparr>"
    and proc_exc: "\<And>h v e. I h (Some v) \<Longrightarrow> v < max_train_steps self \<Longrightarrow>
        Q (Raised e)
          \<lparr>trace = U Process (Exc e) # B ShouldStop (Ret False) # h, global_step = Some v\<rparr>"
    and proc_hang: "\<And>h v. I h (Some v) \<Longrightarrow> v < max_train_steps self \<Longrightarrow>
        Q Blocked
          \<lparr>trace = U Process Hang # B ShouldStop (Ret False) # h, global_step = Some v\<rparr>"
    and read_exc: "\<And>h v e. I h (Some v) \<Longrightarrow> v < max_train_steps self \<Longrightarrow>
        Q (Raised e)
          \<lparr>trace = RunGlobalStep (Exc e) # U Process (Ret ()) # B ShouldStop (Ret False) # h,
           global_step = Some v\<rparr>"
    and read_hang: "\<And>h v. I h (Some v) \<Longrightarrow> v < max_train_steps self \<Longrightarrow>
        Q Blocked
          \<lparr>trace = RunGlobalStep Hang # U Process (Ret ()) # B ShouldStop (Ret False) # h,
           global_step = Some v\<rparr>"
  shows "wp (seq (run_loop w self n) f) Q \<lparr>trace = h, global_step = g\<rparr>"
  using inv
proof (induction n arbitrary: h g)
  case 0
  from fuel[OF 0] show ?case by (simp add: wp_def seq_def)
next
  case (Suc n)
  note I = Suc.prems
  show ?case
  proof (cases g)
    case None
    show ?thesis
      unfolding run_loop.simps None
      apply (intro wp_seq_seq wp_seq_call_bool)
      subgoal for e using stop_exc[OF I, of e] None by simp
      subgoal using stop_hang[OF I] None by simp
      subgoal for b
        apply (cases b)
        subgoal using exit_stop[OF I] None by (simp add: wp_def seq_def ret_def)
        subgoal using unbound[of h] I None by (simp add: wp_def seq_def ret_def get_global_step_def)
        done
      done
  next
    case (Some v)
    note I' = I[unfolded Some]
    show ?thesis
      unfolding run_loop.simps Some
      apply (intro wp_seq_seq wp_seq_call_bool)
      subgoal for e using stop_exc[OF I', of e] by simp
      subgoal using stop_hang[OF I'] by simp
      subgoal for b
        apply (cases b)
        subgoal using exit_stop[OF I'] by (simp add: wp_def seq_def ret_def)
        subgoal
        proof (cases "v < max_train_steps self")
          case False
          assume "\<not> b"
          with False exit_max[OF I' False] show ?thesis
            by (simp add: wp_def seq_def ret_def get_global_step_def)
        next
          case True
          assume nb: "\<not> b"
          have rec: "wp (seq (run_loop w self n) f) Q
             \<lparr>trace = RunGlobalStep (Ret v') # U Process (Ret ()) # B ShouldStop (Ret False) # h,
              global_step = Some v'\<rparr>" for v'
            by (rule Suc.IH) (rule step[OF I' True])
          have "wp (seq (seq (call_unit w Process)
                     (\<lambda>_. seq (read_global_step w) (\<lambda>_. run_loop w self n))) f) Q
             \<lparr>trace = B ShouldStop (Ret False) # h, global_step = Some v\<rparr>"
            apply (intro wp_seq_seq wp_seq_call_unit wp_seq_read_global_step)
            subgoal for e by (rule proc_exc[OF I' True])
            subgoal by (rule proc_hang[OF I' True])
            subgoal for e by (rule read_exc[OF I' True])
            subgoal by (rule read_hang[OF I' True])
            subgoal for v' by (rule rec)
            done
          with True nb show ?thesis
            by (simp add: wp_def seq_def ret_def get_global_step_def)
        qed
        done
      done
  qed
qed

lemmas wp_intros =
  wp_seq_seq wp_seq_ret wp_seq_raise wp_seq_if wp_seq_log wp_seq_call_unit wp_seq_call_bool
  wp_seq_call_trainer wp_seq_read_global_step wp_seq_get_global_step wp_seq_dict_get
  wp_seq_try_except wp_seq_with_stmt wp_seq_log_variables try_post_intros exit_post_intros
  wp_ret wp_raise wp_log wp_call_unit wp_if wp_with_stmt

lemmas run_defs = run_ps_def run_worker_def run_make_env_def run_session_body_def

lemma run_wp:
  "wp (seq (call_unit w ResetDefaultGraph) (\<lambda>_.
     seq (if test_mode self then call_unit w ImportGym else ret ()) (\<lambda>_.
     seq (call_unit w ClusterDef) (\<lambda>_.
     if str_in (job_name self) ''ps'' then run_ps w self
     else run_worker w self fuel)))) Q \<lparr>trace = [], global_step = None\<rparr>
   \<Longrightarrow> Q (fst (run w self fuel)) (snd (run w self fuel))"
  by (simp add: wp_def run_def)

section \<open>Facts about traces\<close>

lemma ucalls_append: "ucalls (xs @ ys) = ucalls xs @ ucalls ys"
  by (induction xs rule: ucalls.induct) simp_all

lemma ucalls_var_logs [simp]: "ucalls (var_logs vs @ h) = ucalls h"
  by (induction vs arbitrary: h) (simp_all add: var_logs_def ucalls_append)

lemma in_set_ucalls: "c \<in> set (ucalls h) \<longleftrightarrow> (\<exists>r. U c r \<in> set h)"
  by (induction h rule: ucalls.induct) auto

lemma last_step_var_logs [simp]: "last_step (var_logs vs @ h) = last_step h"
proof -
  have "last_step (rev ls @ h) = last_step h" if "\<forall>e\<in>set ls. \<exists>l m. e = Log l m" for ls
    using that by (induction ls arbitrary: h) auto
  then show ?thesis by (simp add: var_logs_def)
qed

lemma trainer_of_var_logs [simp]: "trainer_of (var_logs vs @ h) = trainer_of h"
proof -
  have "trainer_of (rev ls @ h) = trainer_of h" if "\<forall>e\<in>set ls. \<exists>l m. e = Log l m" for ls
    using that by (induction ls arbitrary: h) auto
  then show ?thesis by (simp add: var_logs_def)
qed

lemma in_var_logs: "e \<in> set (var_logs vs) \<longleftrightarrow> (\<exists>v\<in>set vs. e = Log DEBUG (msg_variable v))"
  by (auto simp: var_logs_def)

lemma trainer_of_in_set: "trainer_of h = Some tr \<Longrightarrow> TrainerNew (Ret tr) \<in> set h"
  by (induction h rule: trainer_of.induct) auto

lemma each_event_append: "each_event Q (xs @ ys) \<Longrightarrow> each_event Q ys"
  by (induction xs) simp_all

lemma each_event_at: "each_event Q (post @ e # pre) \<Longrightarrow> Q e pre"
  using each_event_append[of Q post "e # pre"] by simp

lemma each_event_logs:
  "(\<And>l m pre. Q (Log l m) pre) \<Longrightarrow> each_event Q (var_logs vs @ h) = each_event Q h"
proof -
  assume q: "\<And>l m pre. Q (Log l m) pre"
  have "each_event Q (rev ls @ h) = each_event Q h" if "\<forall>e\<in>set ls. \<exists>l m. e = Log l m" for ls
    using that q by (induction ls arbitrary: h) auto
  then show ?thesis by (simp add: var_logs_def)
qed

lemma str_in_ps: "str_in x ''ps'' \<longleftrightarrow> x \<in> {'''', ''p'', ''s'', ''ps''}"
proof -
  have "take (length x) ''ps'' = x \<longleftrightarrow> x \<in> {'''', ''p'', ''ps''}"
    by (cases x; simp; cases "tl x"; auto; cases "tl (tl x)"; auto)
  moreover have "take (length x) ''s'' = x \<longleftrightarrow> x \<in> {'''', ''s''}"
    by (cases x; simp; cases "tl x"; auto)
  ultimately show ?thesis by (auto simp: startswith_def)
qed

section \<open>The sample worlds, run\<close>

lemma variables_to_save_trainer0: "variables_to_save (graph_variables trainer0) = [var_g]"
  by (simp add: variables_to_save_def trainer0_def var_g_def var_l_def startswith_def)

lemma worker0_fields:
  "env_kwargs worker0 = [(''data_master'', ''True'')]" "job_name worker0 = ''worker''"
  "task worker0 = 0" "max_train_steps worker0 = 1" "test_mode worker0 = False"
  "has_memory trainer0"
  by (simp_all add: worker0_def trainer0_def)

lemmas prog_defs = run_def run_worker_def run_ps_def run_make_env_def run_session_body_def
  with_stmt_def seq_def ret_def raise_def try_except_def call_unit_def call_bool_def
  call_trainer_def log_def read_global_step_def get_global_step_def res_of_def dict_get_def
  Let_def startswith_def

lemma run_nominal:
  "run nominal_world worker0 3 = (Ok (), \<lparr>trace = nominal_trace, global_step = Some 1\<rparr>)"
  by (simp add: prog_defs nominal_world_def worker0_fields variables_to_save_trainer0
      eval_nat_numeral nominal_trace_def nominal_epilogue_def nominal_warmup_def
      nominal_prologue_def)

lemmas nominal_defs = nominal_trace_def nominal_epilogue_def nominal_warmup_def
  nominal_prologue_def

lemmas split_mode = if_True if_False not_True_eq_False not_False_eq_True

section \<open>Decimal numerals\<close>

text \<open>\<open>str_of_int\<close> writes the decimal numeral of its argument: reading the numeral back
  gives the argument, so different numbers have different numerals, and a numeral contains
  neither a blank nor a colon.\<close>

lemma digit_of_digit_char: "d < 10 \<Longrightarrow> digit_of (digit_char d) = d"
  by (simp add: digit_of_def digit_char_def)

lemma digit_char_code: "d < 10 \<Longrightarrow> of_char (digit_char d) = 48 + d"
  by (simp add: digit_char_def)

lemma digit_char_not: "d < 10 \<Longrightarrow> digit_char d \<noteq> CHR ''-''" "d < 10 \<Longrightarrow> digit_char d \<noteq> CHR '' ''"
  "d < 10 \<Longrightarrow> digit_char d \<noteq> CHR '':''"
proof -
  assume d: "d < 10"
  have "of_char (digit_char d) \<noteq> (of_char (CHR ''-'') :: nat)"
       "of_char (digit_char d) \<noteq> (of_char (CHR '' '') :: nat)"
       "of_char (digit_char d) \<noteq> (of_char (CHR '':'') :: nat)"
    using d by (simp_all add: digit_char_code)
  then show "digit_char d \<noteq> CHR ''-''" "digit_char d \<noteq> CHR '' ''" "digit_char d \<noteq> CHR '':''"
    by auto
qed

lemma str_of_nat_digits: "c \<in> set (str_of_nat n) \<Longrightarrow> \<exists>d<10. c = digit_char d"
proof (induction n rule: str_of_nat.induct)
  case (1 n)
  show ?case
  proof (cases "n < 10")
    case True
    with 1(2) show ?thesis by (auto simp: str_of_nat.simps[of n])
  next
    case False
    with 1 show ?thesis
      by (auto simp: str_of_nat.simps[of n] intro: exI[of _ "n mod 10"])
  qed
qed

lemma str_of_nat_ne: "str_of_nat n \<noteq> []"
  by (subst str_of_nat.simps) simp

lemma nat_of_str_snoc: "nat_of_str (s @ [c]) = 10 * nat_of_str s + digit_of c"
  by (simp add: nat_of_str_def)

lemma nat_of_str_of_nat: "nat_of_str (str_of_nat n) = n"
proof (induction n rule: str_of_nat.induct)
  case (1 n)
  show ?case
  proof (cases "n < 10")
    case True
    then show ?thesis
      by (simp add: str_of_nat.simps[of n] nat_of_str_def digit_of_digit_char)
  next
    case False
    with 1 show ?thesis
      by (simp add: str_of_nat.simps[of n] nat_of_str_snoc digit_of_digit_char)
  qed
qed

lemma str_of_nat_chars:
  assumes "c \<in> set (str_of_nat n)"
  shows "c \<noteq> CHR '' '' \<and> c \<noteq> CHR '':'' \<and> c \<noteq> CHR ''-''"
proof -
  from assms obtain d where d: "d < 10" "c = digit_char d"
    using str_of_nat_digits[of c n] by auto
  from d(1) show ?thesis
    unfolding d(2) by (simp add: digit_char_not)
qed

lemma int_of_str_of_int: "int_of_str (str_of_int i) = i"
proof (cases "i < 0")
  case True
  then show ?thesis by (simp add: int_of_str_def str_of_int_def nat_of_str_of_nat)
next
  case False
  obtain c cs where s: "str_of_nat (nat i) = c # cs"
    using str_of_nat_ne[of "nat i"] by (cases "str_of_nat (nat i)") auto
  then have "c \<in> set (str_of_nat (nat i))" by simp
  then have "c \<noteq> CHR ''-''" by (rule str_of_nat_chars[THEN conjunct2, THEN conjunct2])
  with False s nat_of_str_of_nat[of "nat i"] show ?thesis
    by (simp add: int_of_str_def str_of_int_def)
qed

lemma str_of_int_chars:
  assumes "c \<in> set (str_of_int i)"
  shows "c \<noteq> CHR '' '' \<and> c \<noteq> CHR '':''"
proof (cases "i < 0")
  case True
  with assms have "c = CHR ''-'' \<or> c \<in> set (str_of_nat (nat (- i)))"
    by (simp add: str_of_int_def)
  then show ?thesis
  proof
    assume "c = CHR ''-''"
    then show ?thesis by simp
  next
    assume "c \<in> set (str_of_nat (nat (- i)))"
    then show ?thesis using str_of_nat_chars by blast
  qed
next
  case False
  with assms have "c \<in> set (str_of_nat (nat i))" by (simp add: str_of_int_def)
  then show ?thesis using str_of_nat_chars by blast
qed

lemma str_of_int_inj:
  assumes "str_of_int a = str_of_int b"
  shows "a = b"
proof -
  have "int_of_str (str_of_int a) = int_of_str (str_of_int b)"
    by (simp only: assms)
  then show ?thesis by (simp only: int_of_str_of_int)
qed

lemma char_of_digits:
  "char_of (48::nat) = CHR ''0''" "char_of (49::nat) = CHR ''1''"
  by code_simp+

lemma str_of_int_0: "str_of_int 0 = ''0''" and str_of_int_1: "str_of_int 1 = ''1''"
  by (simp_all add: str_of_int_def str_of_nat.simps digit_char_def char_of_digits)

lemma takeWhile_number:
  "takeWhile (\<lambda>c. c \<noteq> CHR '' '') (str_of_int i @ CHR '' '' # rest) = str_of_int i"
proof -
  have "takeWhile (\<lambda>c. c \<noteq> CHR '' '') (str_of_int i @ CHR '' '' # rest)
      = str_of_int i @ takeWhile (\<lambda>c. c \<noteq> CHR '' '') (CHR '' '' # rest)"
    by (rule takeWhile_append2) (use str_of_int_chars in blast)
  then show ?thesis by simp
qed

lemma rank_in_failure_msg:
  "rank_in_failure ('' Worker_'' @ str_of_int t @ '' failed to make BTgym environment'') = t"
  "rank_in_failure ('' Worker_'' @ str_of_int t @ '' failed to make Atari Gym environment'') = t"
  by (simp_all add: rank_in_failure_def takeWhile_number int_of_str_of_int)

lemma steps_in_final_log_msg:
  "steps_in_final_log (''worker_'' @ str_of_int t @ '': reached '' @ str_of_int g @ '' steps, exiting.'') = g"
proof -
  have "dropWhile (\<lambda>c. c \<noteq> CHR '':'') (str_of_int t @ CHR '':'' # rest)
      = dropWhile (\<lambda>c. c \<noteq> CHR '':'') (CHR '':'' # rest)" for rest
    by (rule dropWhile_append2) (use str_of_int_chars in blast)
  then show ?thesis
    by (simp add: steps_in_final_log_def takeWhile_number int_of_str_of_int)
qed

section \<open>The supervisor's arguments\<close>

lemma sup_event_ok_simps [simp]:
  "sup_event_ok self (U (SupervisorNew a) r) pre =
     (\<exists>tr. trainer_of pre = Some tr \<and> a = supervisor_of self tr)"
  "(\<And>a. c \<noteq> SupervisorNew a) \<Longrightarrow> sup_event_ok self (U c r) pre"
  "sup_event_ok self (B b rb) pre"
  "sup_event_ok self (RunGlobalStep ri) pre"
  "sup_event_ok self (TrainerNew rt) pre"
  "sup_event_ok self (Log l m) pre"
  by (auto simp: sup_event_ok_def)

lemma sup_ok_var_logs [simp]:
  "each_event (sup_event_ok self) (var_logs vs @ h) = each_event (sup_event_ok self) h"
  by (rule each_event_logs) simp

lemma supervisor_events:
  "each_event (sup_event_ok self) (trace (snd (run w self n)))"
  apply (rule run_wp[where Q = "\<lambda>r s. each_event (sup_event_ok self) (trace s)"])
  unfolding run_defs
  apply (cases "test_mode self"; simp only: split_mode;
         intro wp_intros wp_run_loop[where I = "\<lambda>h g. each_event (sup_event_ok self) h"])
  apply simp_all
  done

lemma supervisor_event_args:
  assumes "U (SupervisorNew a) r \<in> set (trace (snd (run w self n)))"
  shows "\<exists>tr. TrainerNew (Ret tr) \<in> set (trace (snd (run w self n))) \<and> a = supervisor_of self tr"
proof -
  from assms obtain post pre
    where d: "trace (snd (run w self n)) = post @ U (SupervisorNew a) r # pre"
    by (auto simp: in_set_conv_decomp)
  have "sup_event_ok self (U (SupervisorNew a) r) pre"
    using supervisor_events[of self w n] unfolding d by (rule each_event_at)
  then obtain tr where "trainer_of pre = Some tr" "a = supervisor_of self tr" by auto
  then show ?thesis using trainer_of_in_set[of pre tr] d by auto
qed

lemma nominal_supervisor:
  "U (SupervisorNew (supervisor_of worker0 trainer0)) (Ret ())
     \<in> set (trace (snd (run nominal_world worker0 3)))"
  by (simp add: run_nominal nominal_defs)

text \<open>C5: the Supervisor that \<open>run\<close> constructs gets, as saver, as \<open>init_op\<close> and as
  \<open>ready_op\<close>, exactly the graph variables whose name does not start with \<open>local\<close> (in the
  order of the graph's collection), so no local variable is in any of the three; the callback
  \<open>init_fn\<close> runs the initializer of all graph variables. The graph variables are those the
  trainer construction of this run left behind.\<close>

theorem supervisor_ranges_over_global_variables:
  assumes "U (SupervisorNew a) r \<in> set (trace (snd (run w self n)))"
  shows "\<exists>tr. TrainerNew (Ret tr) \<in> set (trace (snd (run w self n))) \<and>
           init_fn a = graph_variables tr \<and>
           saver a = filter (\<lambda>v. \<not> startswith (v_name v) ''local'') (graph_variables tr) \<and>
           init_op a = saver a \<and> ready_op a = saver a \<and>
           (\<forall>v \<in> set (graph_variables tr).
              startswith (v_name v) ''local'' \<longrightarrow>
                v \<notin> set (saver a) \<and> v \<notin> set (init_op a) \<and> v \<notin> set (ready_op a))"
proof -
  from supervisor_event_args[OF assms] obtain tr
    where "TrainerNew (Ret tr) \<in> set (trace (snd (run w self n)))" "a = supervisor_of self tr"
    by blast
  then show ?thesis
    by (intro exI[of _ tr]) (simp add: supervisor_of_def variables_to_save_def)
qed

theorem supervisor_ranges_over_global_variables_witness:
  "U (SupervisorNew (supervisor_of worker0 trainer0)) (Ret ())
     \<in> set (trace (snd (run nominal_world worker0 3))) \<and>
   (\<exists>tr. TrainerNew (Ret tr) \<in> set (trace (snd (run nominal_world worker0 3))) \<and>
      init_fn (supervisor_of worker0 trainer0) = graph_variables tr \<and>
      saver (supervisor_of worker0 trainer0) = [var_g] \<and>
      init_op (supervisor_of worker0 trainer0) = [var_g] \<and>
      ready_op (supervisor_of worker0 trainer0) = [var_g] \<and>
      var_l \<in> set (graph_variables tr) \<and> startswith (v_name var_l) ''local'')"
proof -
  from supervisor_ranges_over_global_variables[OF nominal_supervisor] obtain tr
    where tr: "TrainerNew (Ret tr) \<in> set (trace (snd (run nominal_world worker0 3)))"
      and f: "init_fn (supervisor_of worker0 trainer0) = graph_variables tr"
    by blast
  from f have g: "graph_variables tr = [var_g, var_l]"
    by (simp add: supervisor_of_def trainer0_def)
  have s: "saver (supervisor_of worker0 trainer0) = [var_g]"
    "init_op (supervisor_of worker0 trainer0) = [var_g]"
    "ready_op (supervisor_of worker0 trainer0) = [var_g]"
    by (simp_all add: supervisor_of_def variables_to_save_trainer0)
  have l: "startswith (v_name var_l) ''local''"
    by (simp add: var_l_def startswith_def)
  from tr f g s l nominal_supervisor show ?thesis
    by (intro conjI exI[of _ tr]) simp_all
qed

section \<open>Checkpointing\<close>

lemma no_save_simps [simp]:
  "no_save []"
  "no_save (U c r # h) = ((\<forall>a. c \<noteq> SaverSave a) \<and> no_save h)"
  "no_save (B b rb # h) = no_save h"
  "no_save (RunGlobalStep ri # h) = no_save h"
  "no_save (TrainerNew rt # h) = no_save h"
  "no_save (Log l m # h) = no_save h"
  "no_save (var_logs vs @ h) = no_save h"
  by (auto simp: no_save_def)

lemma no_save_run: "no_save (trace (snd (run w self n)))"
  apply (rule run_wp[where Q = "\<lambda>r s. no_save (trace s)"])
  unfolding run_defs
  apply (cases "test_mode self"; simp only: split_mode;
         intro wp_intros wp_run_loop[where I = "\<lambda>h g. no_save h"])
  apply simp_all
  done

text \<open>C9: \<open>run\<close> never calls the saver's \<open>save\<close>, whatever the number of loop iterations; the
  only checkpointing it sets up is the Supervisor's, built with the saver over the variables
  whose name does not start with \<open>local\<close> and with the fixed interval \<open>save_model_secs = 300\<close>.\<close>

theorem checkpoints_only_by_timed_supervisor:
  "(\<forall>a. SaverSave a \<notin> set (ucalls (trace (snd (run w self n))))) \<and>
   (\<forall>a r. U (SupervisorNew a) r \<in> set (trace (snd (run w self n))) \<longrightarrow>
      save_model_secs a = 300 \<and>
      (\<exists>tr. TrainerNew (Ret tr) \<in> set (trace (snd (run w self n))) \<and>
         saver a = filter (\<lambda>v. \<not> startswith (v_name v) ''local'') (graph_variables tr)) \<and>
      (\<forall>v \<in> set (saver a). \<not> startswith (v_name v) ''local''))"
proof (intro conjI allI impI)
  fix a
  show "SaverSave a \<notin> set (ucalls (trace (snd (run w self n))))"
    using no_save_run[of w self n] by (simp add: no_save_def)
next
  fix a r assume "U (SupervisorNew a) r \<in> set (trace (snd (run w self n)))"
  from supervisor_event_args[OF this] obtain tr
    where tr: "TrainerNew (Ret tr) \<in> set (trace (snd (run w self n)))" "a = supervisor_of self tr"
    by blast
  show "save_model_secs a = 300" using tr(2) by (simp add: supervisor_of_def)
  show "\<exists>tr. TrainerNew (Ret tr) \<in> set (trace (snd (run w self n))) \<and>
         saver a = filter (\<lambda>v. \<not> startswith (v_name v) ''local'') (graph_variables tr)"
    using tr by (intro exI[of _ tr]) (simp add: supervisor_of_def variables_to_save_def)
  show "\<forall>v \<in> set (saver a). \<not> startswith (v_name v) ''local''"
    using tr(2) by (simp add: supervisor_of_def variables_to_save_def)
qed

theorem checkpoints_only_by_timed_supervisor_witness:
  "(\<forall>a. SaverSave a \<notin> set (ucalls (trace (snd (run nominal_world worker0 3))))) \<and>
   U (SupervisorNew (supervisor_of worker0 trainer0)) (Ret ())
     \<in> set (trace (snd (run nominal_world worker0 3))) \<and>
   save_model_secs (supervisor_of worker0 trainer0) = 300 \<and>
   saver (supervisor_of worker0 trainer0) = [var_g] \<and>
   \<not> startswith (v_name var_g) ''local''"
  using checkpoints_only_by_timed_supervisor[of nominal_world worker0 3] nominal_supervisor
  by (auto simp: supervisor_of_def variables_to_save_trainer0 var_g_def startswith_def)

section \<open>The loop guard\<close>

lemma guard_event_simps [simp]:
  "guard_event m (U Process r) pre =
     ((\<exists>pre'. pre = B ShouldStop (Ret False) # pre') \<and> (\<exists>v. last_step pre = Some v \<and> v < m))"
  "c \<noteq> Process \<Longrightarrow> guard_event m (U c r) pre"
  "guard_event m (B b rb) pre"
  "guard_event m (RunGlobalStep ri) pre"
  "guard_event m (TrainerNew rt) pre"
  "guard_event m (Log l s) pre"
  by (auto simp: guard_event_def)

lemma guard_var_logs [simp]:
  "each_event (guard_event m) (var_logs vs @ h) = each_event (guard_event m) h"
  by (rule each_event_logs) simp

lemma guard_run: "each_event (guard_event (max_train_steps self)) (trace (snd (run w self n)))"
  apply (rule run_wp[where Q = "\<lambda>r s. each_event (guard_event (max_train_steps self)) (trace s)"])
  unfolding run_defs
  apply (cases "test_mode self"; simp only: split_mode;
         intro wp_intros wp_run_loop[where I = "\<lambda>h g.
           each_event (guard_event (max_train_steps self)) h \<and> last_step h = g"])
  apply simp_all
  done

lemma first_step_var_logs [simp]: "first_step (var_logs vs @ h) = first_step h"
proof -
  have "first_step (rev ls @ h) = first_step h" if "\<forall>e\<in>set ls. \<exists>l m. e = Log l m" for ls
    using that by (induction ls arbitrary: h) (auto split: option.splits)
  then show ?thesis by (simp add: var_logs_def)
qed

lemma entered_simps [simp]:
  "\<not> entered []"
  "entered (e # h) = (entered h \<or> last_step [e] \<noteq> None)"
  "entered (var_logs vs @ h) = entered h"
  by (auto simp: entered_def split: option.splits)

lemma done_at_entry_simps [simp]:
  "\<not> done_at_entry m []"
  "entered h \<Longrightarrow> done_at_entry m (e # h) = done_at_entry m h"
  "\<not> entered h \<Longrightarrow> done_at_entry m (e # h) = (\<exists>v. last_step [e] = Some v \<and> m \<le> v)"
  "done_at_entry m (var_logs vs @ h) = done_at_entry m h"
  by (auto simp: done_at_entry_def entered_def)

lemma entry_run:
  "done_at_entry (max_train_steps self) (trace (snd (run w self n))) \<longrightarrow>
     Process \<notin> set (ucalls (trace (snd (run w self n))))"
  apply (rule run_wp[where Q = "\<lambda>r s. done_at_entry (max_train_steps self) (trace s) \<longrightarrow>
      Process \<notin> set (ucalls (trace s))"])
  unfolding run_defs
  apply (cases "test_mode self"; simp only: split_mode;
         intro wp_intros wp_run_loop[where I = "entry_inv (max_train_steps self)"])
  apply (simp_all add: entry_inv_def)
  done

lemma run_nominal_done:
  "first_step (trace (snd (run nominal_world (worker0\<lparr>max_train_steps := 0\<rparr>) 3))) = Some 0"
  by (simp add: prog_defs nominal_world_def worker0_def worker0_fields
      variables_to_save_trainer0 eval_nat_numeral)

text \<open>C3: whenever \<open>trainer.process\<close> is called, the event just before it is
  \<open>sv.should_stop()\<close> answering false, and the value most recently read from the step counter
  is below \<open>max_train_steps\<close>. In particular, if the first value read (the one \<open>global_step\<close>
  holds when the loop is entered) has already reached \<open>max_train_steps\<close>, no iteration is
  executed at all.\<close>

theorem process_only_under_loop_guard:
  "(\<forall>post r pre. trace (snd (run w self n)) = post @ U Process r # pre \<longrightarrow>
      (\<exists>pre'. pre = B ShouldStop (Ret False) # pre') \<and>
      (\<exists>v. last_step pre = Some v \<and> v < max_train_steps self)) \<and>
   (\<forall>v. first_step (trace (snd (run w self n))) = Some v \<and> max_train_steps self \<le> v \<longrightarrow>
      Process \<notin> set (ucalls (trace (snd (run w self n)))))"
proof (intro conjI allI impI)
  fix post r pre
  assume d: "trace (snd (run w self n)) = post @ U Process r # pre"
  have "guard_event (max_train_steps self) (U Process r) pre"
    using guard_run[of self w n] unfolding d by (rule each_event_at)
  then show "\<exists>pre'. pre = B ShouldStop (Ret False) # pre'"
    and "\<exists>v. last_step pre = Some v \<and> v < max_train_steps self"
    by simp_all
next
  fix v
  assume "first_step (trace (snd (run w self n))) = Some v \<and> max_train_steps self \<le> v"
  then have "done_at_entry (max_train_steps self) (trace (snd (run w self n)))"
    by (auto simp: done_at_entry_def)
  with entry_run[of self w n] show "Process \<notin> set (ucalls (trace (snd (run w self n))))"
    by blast
qed

theorem process_only_under_loop_guard_witness:
  "trace (snd (run nominal_world worker0 3)) =
     nominal_epilogue @ U Process (Ret ()) # B ShouldStop (Ret False) # nominal_warmup
       @ nominal_prologue \<and>
   last_step (B ShouldStop (Ret False) # nominal_warmup @ nominal_prologue) = Some 0 \<and>
   (0::int) < max_train_steps worker0 \<and>
   first_step (trace (snd (run nominal_world (worker0\<lparr>max_train_steps := 0\<rparr>) 3))) = Some 0 \<and>
   max_train_steps (worker0\<lparr>max_train_steps := 0\<rparr>) \<le> 0 \<and>
   Process \<notin> set (ucalls (trace (snd (run nominal_world (worker0\<lparr>max_train_steps := 0\<rparr>) 3))))"
proof -
  have t: "trace (snd (run nominal_world worker0 3)) =
     nominal_epilogue @ U Process (Ret ()) # B ShouldStop (Ret False) # nominal_warmup
       @ nominal_prologue"
    by (simp add: run_nominal nominal_trace_def)
  have l: "last_step (B ShouldStop (Ret False) # nominal_warmup @ nominal_prologue) = Some 0"
    by (simp add: nominal_warmup_def)
  have m: "(0::int) < max_train_steps worker0" "max_train_steps (worker0\<lparr>max_train_steps := 0\<rparr>) \<le> 0"
    by (simp_all add: worker0_def)
  have "Process \<notin> set (ucalls (trace (snd (run nominal_world (worker0\<lparr>max_train_steps := 0\<rparr>) 3))))"
    using process_only_under_loop_guard[of nominal_world "worker0\<lparr>max_train_steps := 0\<rparr>" 3]
      run_nominal_done m(2) by blast
  with t l m run_nominal_done show ?thesis
    using process_only_under_loop_guard[of nominal_world worker0 3]
    by (intro conjI)
qed

section \<open>Filling the replay memory\<close>

lemma fill_event_simps [simp]:
  "fill_event (U MemoryFill r) pre =
     ((\<exists>v pre'. pre = B MemoryIsFull (Ret False) # RunGlobalStep (Ret v)
                          # U TrainerStart (Ret ()) # U RunSync (Ret ()) # pre') \<and>
        Process \<notin> set (ucalls pre) \<and> MemoryFill \<notin> set (ucalls pre))"
  "c \<noteq> MemoryFill \<Longrightarrow> fill_event (U c r) pre"
  "fill_event (B b rb) pre"
  "fill_event (RunGlobalStep ri) pre"
  "fill_event (TrainerNew rt) pre"
  "fill_event (Log l s) pre"
  by (auto simp: fill_event_def)

lemma fill_var_logs [simp]:
  "each_event fill_event (var_logs vs @ h) = each_event fill_event h"
  by (rule each_event_logs) simp

lemma full_answers_var_logs [simp]: "full_answers (var_logs vs @ h) = full_answers h"
proof -
  have "full_answers (rev ls @ h) = full_answers h" if "\<forall>e\<in>set ls. \<exists>l m. e = Log l m" for ls
    using that by (induction ls arbitrary: h) auto
  then show ?thesis by (simp add: var_logs_def)
qed

lemma fill_run: "fill_spec (trace (snd (run w self n)))"
  apply (rule run_wp[where Q = "\<lambda>r s. fill_spec (trace s)"])
  unfolding run_defs
  apply (cases "test_mode self"; simp only: split_mode;
         intro wp_intros wp_run_loop[where I = "\<lambda>h g. fill_spec h"])
  apply (simp_all add: fill_spec_def)
  done
lemma full_answers_iff: "b \<in> set (full_answers h) \<longleftrightarrow> B MemoryIsFull (Ret b) \<in> set h"
  by (induction h rule: full_answers.induct) auto

lemma fill_at_most_once:
  "each_event fill_event h \<Longrightarrow> length (filter (\<lambda>c. c = MemoryFill) (ucalls h)) \<le> 1"
proof (induction h)
  case Nil
  then show ?case by simp
next
  case (Cons e h)
  show ?case
  proof (cases "\<exists>r. e = U MemoryFill r")
    case True
    then obtain r where e: "e = U MemoryFill r" by blast
    with Cons.prems have "MemoryFill \<notin> set (ucalls h)" by simp
    then have "filter (\<lambda>c. c = MemoryFill) (ucalls h) = []"
      by (auto simp: filter_empty_conv)
    with e show ?thesis by simp
  next
    case False
    with Cons show ?thesis by (cases e) auto
  qed
qed

lemma run_full:
  "B MemoryIsFull (Ret True) \<in> set (trace (snd (run full_world worker0 3)))"
  by (simp add: prog_defs full_world_def nominal_world_def worker0_fields
      variables_to_save_trainer0 eval_nat_numeral)

text \<open>C4: if \<open>trainer.memory.is_full()\<close> answers false, \<open>trainer.memory.fill()\<close> is called
  exactly once in the run: directly after that answer, which follows the read of the step
  counter, \<open>trainer.start\<close> and the run of \<open>trainer.sync\<close> (all returned), and with no
  \<open>trainer.process\<close> call before it. If \<open>is_full()\<close> answers true, \<open>fill()\<close> is never
  called.\<close>

theorem memory_filled_once_before_training:
  "(B MemoryIsFull (Ret False) \<in> set (trace (snd (run w self n))) \<longrightarrow>
      length (filter (\<lambda>c. c = MemoryFill) (ucalls (trace (snd (run w self n))))) = 1 \<and>
      (\<exists>post r v pre.
          trace (snd (run w self n)) =
            post @ U MemoryFill r # B MemoryIsFull (Ret False) # RunGlobalStep (Ret v)
              # U TrainerStart (Ret ()) # U RunSync (Ret ()) # pre \<and>
          Process \<notin> set (ucalls pre))) \<and>
   (B MemoryIsFull (Ret True) \<in> set (trace (snd (run w self n))) \<longrightarrow>
      MemoryFill \<notin> set (ucalls (trace (snd (run w self n)))))"
proof -
  let ?T = "trace (snd (run w self n))"
  have spec: "fill_spec ?T" by (rule fill_run)
  then have ee: "each_event fill_event ?T" by (simp add: fill_spec_def)
  have "length (filter (\<lambda>c. c = MemoryFill) (ucalls ?T)) = 1 \<and>
      (\<exists>post r v pre.
          ?T = post @ U MemoryFill r # B MemoryIsFull (Ret False) # RunGlobalStep (Ret v)
              # U TrainerStart (Ret ()) # U RunSync (Ret ()) # pre \<and>
          Process \<notin> set (ucalls pre))"
    if "B MemoryIsFull (Ret False) \<in> set ?T"
  proof -
    from that spec have "MemoryFill \<in> set (ucalls ?T)"
      by (simp add: fill_spec_def full_answers_iff)
    then have pos: "filter (\<lambda>c. c = MemoryFill) (ucalls ?T) \<noteq> []"
      by (auto simp: filter_empty_conv)
    from \<open>MemoryFill \<in> set (ucalls ?T)\<close> obtain r where "U MemoryFill r \<in> set ?T"
      by (auto simp: in_set_ucalls)
    then obtain post pre0 where d: "?T = post @ U MemoryFill r # pre0"
      by (auto simp: in_set_conv_decomp)
    have "fill_event (U MemoryFill r) pre0"
      using ee unfolding d by (rule each_event_at)
    then obtain v pre where
      "pre0 = B MemoryIsFull (Ret False) # RunGlobalStep (Ret v)
                # U TrainerStart (Ret ()) # U RunSync (Ret ()) # pre"
      "Process \<notin> set (ucalls pre0)"
      by auto
    with d have "?T = post @ U MemoryFill r # B MemoryIsFull (Ret False) # RunGlobalStep (Ret v)
              # U TrainerStart (Ret ()) # U RunSync (Ret ()) # pre \<and> Process \<notin> set (ucalls pre)"
      by simp
    moreover have "length (filter (\<lambda>c. c = MemoryFill) (ucalls ?T)) = 1"
      using fill_at_most_once[OF ee] pos
      by (cases "filter (\<lambda>c. c = MemoryFill) (ucalls ?T)") auto
    ultimately show ?thesis by blast
  qed
  moreover have "MemoryFill \<notin> set (ucalls ?T)" if "B MemoryIsFull (Ret True) \<in> set ?T"
    using that spec by (simp add: fill_spec_def full_answers_iff)
  ultimately show ?thesis by blast
qed

theorem memory_filled_once_before_training_witness:
  "B MemoryIsFull (Ret False) \<in> set (trace (snd (run nominal_world worker0 3))) \<and>
   length (filter (\<lambda>c. c = MemoryFill) (ucalls (trace (snd (run nominal_world worker0 3))))) = 1 \<and>
   B MemoryIsFull (Ret True) \<in> set (trace (snd (run full_world worker0 3))) \<and>
   MemoryFill \<notin> set (ucalls (trace (snd (run full_world worker0 3))))"
proof -
  have a: "B MemoryIsFull (Ret False) \<in> set (trace (snd (run nominal_world worker0 3)))"
    by (simp add: run_nominal nominal_defs)
  from a run_full
    memory_filled_once_before_training[of nominal_world worker0 3]
    memory_filled_once_before_training[of full_world worker0 3]
  show ?thesis by blast
qed

section \<open>Reading the step counter\<close>

lemma after_process_logs:
  "\<forall>e\<in>set ls. \<exists>l m. e = Log l m \<Longrightarrow> \<not> after_process (ls @ Log l m # h)"
  by (cases ls) auto

lemma read_event_logs:
  "\<forall>e\<in>set ls. \<exists>l m. e = Log l m \<Longrightarrow>
   each_event read_event (ls @ Log l m # h) = each_event read_event (Log l m # h)"
proof (induction ls)
  case Nil
  then show ?case by simp
next
  case (Cons a ls)
  then obtain l' m' where a: "a = Log l' m'" by auto
  from Cons.prems have "\<not> after_process (ls @ Log l m # h)"
    by (intro after_process_logs) simp
  with Cons a show ?case by (simp add: read_event_def)
qed

lemma after_process_var_logs [simp]: "\<not> after_process (var_logs vs @ Log l m # h)"
  by (rule after_process_logs) (auto simp: var_logs_def)

lemma read_var_logs [simp]:
  "each_event read_event (var_logs vs @ Log l m # h) = each_event read_event (Log l m # h)"
  by (rule read_event_logs) (auto simp: var_logs_def)

lemma step_run: "step_spec self (fst (run w self n)) (snd (run w self n))"
  apply (rule run_wp[where Q = "step_spec self"])
  unfolding run_defs
  apply (cases "test_mode self"; simp only: split_mode;
         intro wp_intros wp_run_loop[where I = step_inv])
  apply (simp_all add: step_spec_def step_inv_def read_event_def)
  done
text \<open>C8: the local variable \<open>global_step\<close> always holds the value that the most recent
  successful read of the trainer's step counter returned; every training iteration that
  returns is followed at once by such a read; and when a worker's \<open>run\<close> returns, its last
  action is the log line \<open>worker_<rank>: reached <steps> steps, exiting.\<close>, in which the
  number of steps is the decimal numeral of that value and can be read back.\<close>

theorem global_step_is_read_back:
  "global_step (snd (run w self n)) = last_step (trace (snd (run w self n))) \<and>
   (\<forall>post pre. trace (snd (run w self n)) = post @ U Process (Ret ()) # pre \<longrightarrow>
      (\<exists>post' r. post = post' @ [RunGlobalStep r])) \<and>
   (\<not> str_in (job_name self) ''ps'' \<and> fst (run w self n) = Ok () \<longrightarrow>
      (\<exists>v m pre. last_step (trace (snd (run w self n))) = Some v \<and>
         global_step (snd (run w self n)) = Some v \<and>
         trace (snd (run w self n)) = Log WARNING m # pre \<and>
         m = ''worker_'' @ str_of_int (task self) @ '': reached '' @ str_of_int v
               @ '' steps, exiting.'' \<and>
         steps_in_final_log m = v))"
proof -
  let ?T = "trace (snd (run w self n))"
  have spec: "step_spec self (fst (run w self n)) (snd (run w self n))" by (rule step_run)
  then have inv: "last_step ?T = global_step (snd (run w self n))"
    "each_event read_event ?T" "\<not> after_process ?T"
    by (simp_all add: step_spec_def step_inv_def)
  have "\<exists>post' r. post = post' @ [RunGlobalStep r]"
    if d: "?T = post @ U Process (Ret ()) # pre" for post pre
  proof (cases post rule: rev_cases)
    case Nil
    with d inv(3) show ?thesis by simp
  next
    case (snoc post' e)
    with d have "?T = post' @ e # U Process (Ret ()) # pre" by simp
    with inv(2) have "read_event e (U Process (Ret ()) # pre)"
      using each_event_at[of read_event post' e "U Process (Ret ()) # pre"] by simp
    with snoc show ?thesis by (simp add: read_event_def)
  qed
  moreover have "\<exists>v m pre. last_step ?T = Some v \<and> global_step (snd (run w self n)) = Some v \<and>
      ?T = Log WARNING m # pre \<and>
      m = ''worker_'' @ str_of_int (task self) @ '': reached '' @ str_of_int v
            @ '' steps, exiting.'' \<and>
      steps_in_final_log m = v"
    if "\<not> str_in (job_name self) ''ps'' \<and> fst (run w self n) = Ok ()"
  proof -
    from that spec inv(1) obtain v pre where v: "last_step ?T = Some v"
      "global_step (snd (run w self n)) = Some v"
      and t: "?T = Log WARNING (msg_reached (task self) v) # pre"
      by (auto simp: step_spec_def)
    have m: "msg_reached (task self) v = ''worker_'' @ str_of_int (task self) @ '': reached ''
        @ str_of_int v @ '' steps, exiting.''"
      by (simp only: msg_reached_def)
    have "steps_in_final_log (msg_reached (task self) v) = v"
      unfolding m by (rule steps_in_final_log_msg)
    with v t m show ?thesis by (intro exI conjI)
  qed
  ultimately show ?thesis using inv(1) by auto
qed

theorem global_step_is_read_back_witness:
  "global_step (snd (run nominal_world worker0 3)) = Some 1 \<and>
   last_step (trace (snd (run nominal_world worker0 3))) = Some 1 \<and>
   trace (snd (run nominal_world worker0 3)) =
     nominal_epilogue @ U Process (Ret ()) # B ShouldStop (Ret False) # nominal_warmup
       @ nominal_prologue \<and>
   (\<exists>post' r. nominal_epilogue = post' @ [RunGlobalStep r]) \<and>
   \<not> str_in (job_name worker0) ''ps'' \<and>
   fst (run nominal_world worker0 3) = Ok () \<and>
   hd (trace (snd (run nominal_world worker0 3)))
      = Log WARNING ''worker_0: reached 1 steps, exiting.'' \<and>
   steps_in_final_log ''worker_0: reached 1 steps, exiting.'' = 1"
proof -
  have t: "trace (snd (run nominal_world worker0 3)) =
     nominal_epilogue @ U Process (Ret ()) # B ShouldStop (Ret False) # nominal_warmup
       @ nominal_prologue"
    by (simp add: run_nominal nominal_trace_def)
  have g: "global_step (snd (run nominal_world worker0 3)) = Some 1"
    "fst (run nominal_world worker0 3) = Ok ()"
    by (simp_all add: run_nominal)
  have p: "\<not> str_in (job_name worker0) ''ps''"
    by (simp add: worker0_fields startswith_def)
  note inst = global_step_is_read_back[of nominal_world worker0 3]
  from inst g(1) have l: "last_step (trace (snd (run nominal_world worker0 3))) = Some 1"
    by simp
  from inst t have e: "\<exists>post' r. nominal_epilogue = post' @ [RunGlobalStep r]"
    by blast
  from inst p g(2) obtain v m pre
    where "last_step (trace (snd (run nominal_world worker0 3))) = Some v"
      and "trace (snd (run nominal_world worker0 3)) = Log WARNING m # pre"
      and "m = ''worker_'' @ str_of_int (task worker0) @ '': reached '' @ str_of_int v
                 @ '' steps, exiting.''"
      and "steps_in_final_log m = v"
    by blast
  with l have h: "hd (trace (snd (run nominal_world worker0 3)))
      = Log WARNING ''worker_0: reached 1 steps, exiting.''"
    and s: "steps_in_final_log ''worker_0: reached 1 steps, exiting.'' = 1"
    by (simp_all add: worker0_fields str_of_int_0 str_of_int_1)
  from t g p l e h s show ?thesis by (intro conjI)
qed

section \<open>Closing the environment\<close>

lemma close_event_simps [simp]:
  "close_event m (U EnvClose r) pre =
     (list_all returned pre \<and> EnvClose \<notin> set (ucalls pre) \<and> loop_exited m pre)"
  "c \<noteq> EnvClose \<Longrightarrow> close_event m (U c r) pre"
  "close_event m (B b rb) pre"
  "close_event m (RunGlobalStep ri) pre"
  "close_event m (TrainerNew rt) pre"
  "close_event m (Log l s) pre"
  by (auto simp: close_event_def)

lemma close_var_logs [simp]:
  "each_event (close_event m) (var_logs vs @ h) = each_event (close_event m) h"
  by (rule each_event_logs) simp

lemma after_failed_close_logs:
  "\<forall>e\<in>set ls. \<exists>l m. e = Log l m \<Longrightarrow> after_failed_close (ls @ Log l m # h) = None"
  by (cases ls) auto

lemma escalate_logs:
  "\<forall>e\<in>set ls. \<exists>l m. e = Log l m \<Longrightarrow>
   each_event escalate_event (ls @ Log l m # h) = each_event escalate_event (Log l m # h)"
proof (induction ls)
  case Nil
  then show ?case by simp
next
  case (Cons a ls)
  from Cons.prems have "after_failed_close (ls @ Log l m # h) = None"
    by (intro after_failed_close_logs) simp
  with Cons show ?case by (simp add: escalate_event_def)
qed

lemma after_failed_close_var_logs [simp]:
  "after_failed_close (var_logs vs @ Log l m # h) = None"
  by (rule after_failed_close_logs) (auto simp: var_logs_def)

lemma escalate_var_logs [simp]:
  "each_event escalate_event (var_logs vs @ Log l m # h) = each_event escalate_event (Log l m # h)"
  by (rule escalate_logs) (auto simp: var_logs_def)

lemma close_failed_var_logs [simp]: "close_failed (var_logs vs @ h) = close_failed h"
proof -
  have "close_failed (rev ls @ h) = close_failed h" if "\<forall>e\<in>set ls. \<exists>l m. e = Log l m" for ls
    using that by (induction ls arbitrary: h) auto
  then show ?thesis by (simp add: var_logs_def)
qed

lemma returned_var_logs [simp]: "list_all returned (var_logs vs)"
  by (auto simp: var_logs_def list_all_iff)

lemma close_run: "close_spec self (fst (run w self n)) (snd (run w self n))"
  apply (rule run_wp[where Q = "close_spec self"])
  unfolding run_defs
  apply (cases "test_mode self"; simp only: split_mode;
         intro wp_intros wp_run_loop[where I = "close_inv (max_train_steps self)"])
  apply (simp_all add: close_spec_def close_inv_def escalate_event_def)
  done


lemma close_at_most_once:
  "each_event (close_event m) h \<Longrightarrow> length (filter (\<lambda>c. c = EnvClose) (ucalls h)) \<le> 1"
proof (induction h)
  case Nil
  then show ?case by simp
next
  case (Cons e h)
  show ?case
  proof (cases "\<exists>r. e = U EnvClose r")
    case True
    then obtain r where e: "e = U EnvClose r" by blast
    with Cons.prems have "EnvClose \<notin> set (ucalls h)" by simp
    then have "filter (\<lambda>c. c = EnvClose) (ucalls h) = []"
      by (auto simp: filter_empty_conv)
    with e show ?thesis by simp
  next
    case False
    with Cons show ?thesis by (cases e) auto
  qed
qed

lemma close_failed_iff: "close_failed h \<longleftrightarrow> (\<exists>x. U EnvClose (Exc x) \<in> set h)"
  by (induction h rule: close_failed.induct) auto

lemma run_process_fail:
  "fst (run process_fail_world worker0 3) = Raised (Exception ''iteration failed'')"
  "EnvClose \<notin> set (ucalls (trace (snd (run process_fail_world worker0 3))))"
  by (simp_all add: prog_defs process_fail_world_def nominal_world_def worker0_fields
      variables_to_save_trainer0 eval_nat_numeral)

lemma run_close_fail:
  "fst (run close_fail_world worker0 3) = Raised (Exception ''close failed'')"
  "take 3 (trace (snd (run close_fail_world worker0 3))) =
     [B (ManagedSessionExit (Some (Exception ''close failed''))) (Ret False),
      B (AsDefaultExit (Some (Exception ''close failed''))) (Ret False),
      U EnvClose (Exc (Exception ''close failed''))]"
  "SvStop \<notin> set (ucalls (trace (snd (run close_fail_world worker0 3))))"
  "U EnvClose (Exc (Exception ''close failed'')) \<in> set (trace (snd (run close_fail_world worker0 3)))"
  by (simp_all add: prog_defs close_fail_world_def nominal_world_def worker0_fields
      variables_to_save_trainer0 eval_nat_numeral)

text \<open>C2 as stated fails. When a training iteration raises, \<open>env.close()\<close> is never called;
  and when \<open>env.close()\<close> itself raises, nothing is logged, \<open>sv.stop()\<close> is not called by
  \<open>run\<close>, and the exception leaves \<open>run\<close>.\<close>

theorem close_exactly_once_counterexample:
  "fst (run process_fail_world worker0 3) = Raised (Exception ''iteration failed'') \<and>
   EnvClose \<notin> set (ucalls (trace (snd (run process_fail_world worker0 3)))) \<and>
   fst (run close_fail_world worker0 3) = Raised (Exception ''close failed'') \<and>
   take 3 (trace (snd (run close_fail_world worker0 3))) =
     [B (ManagedSessionExit (Some (Exception ''close failed''))) (Ret False),
      B (AsDefaultExit (Some (Exception ''close failed''))) (Ret False),
      U EnvClose (Exc (Exception ''close failed''))] \<and>
   SvStop \<notin> set (ucalls (trace (snd (run close_fail_world worker0 3))))"
  using run_process_fail run_close_fail by (intro conjI)

text \<open>C2, amended: \<open>env.close()\<close> is called at most once in a run, and only when every earlier
  call has returned and the loop condition has just evaluated to false; in a worker run that
  returns and in which every call returned, it has been called. A failure of \<open>env.close()\<close> is
  not handled by \<open>run\<close>: the exception is passed to the exit of the enclosing context manager,
  and \<open>sv.stop()\<close> is not called.\<close>

theorem close_after_clean_loop_exit:
  "length (filter (\<lambda>c. c = EnvClose) (ucalls (trace (snd (run w self n))))) \<le> 1 \<and>
   (\<forall>post r pre. trace (snd (run w self n)) = post @ U EnvClose r # pre \<longrightarrow>
      list_all returned pre \<and> loop_exited (max_train_steps self) pre) \<and>
   (\<not> str_in (job_name self) ''ps'' \<and> fst (run w self n) = Ok () \<and>
      list_all returned (trace (snd (run w self n))) \<longrightarrow>
        EnvClose \<in> set (ucalls (trace (snd (run w self n))))) \<and>
   (\<forall>x. U EnvClose (Exc x) \<in> set (trace (snd (run w self n))) \<longrightarrow>
      SvStop \<notin> set (ucalls (trace (snd (run w self n)))) \<and>
      (\<exists>post r pre. trace (snd (run w self n)) =
         post @ B (AsDefaultExit (Some x)) r # U EnvClose (Exc x) # pre))"
proof -
  let ?T = "trace (snd (run w self n))"
  have spec: "close_spec self (fst (run w self n)) (snd (run w self n))" by (rule close_run)
  then have ce: "each_event (close_event (max_train_steps self)) ?T"
    and ee: "each_event escalate_event ?T"
    and hd: "after_failed_close ?T = None"
    and st: "close_failed ?T \<longrightarrow> SvStop \<notin> set (ucalls ?T)"
    by (simp_all add: close_spec_def)
  have 1: "length (filter (\<lambda>c. c = EnvClose) (ucalls ?T)) \<le> 1"
    by (rule close_at_most_once[OF ce])
  have 2: "list_all returned pre \<and> loop_exited (max_train_steps self) pre"
    if d: "?T = post @ U EnvClose r # pre" for post r pre
  proof -
    have "close_event (max_train_steps self) (U EnvClose r) pre"
      using ce unfolding d by (rule each_event_at)
    then show ?thesis by simp
  qed
  have 3: "EnvClose \<in> set (ucalls ?T)"
    if "\<not> str_in (job_name self) ''ps'' \<and> fst (run w self n) = Ok () \<and> list_all returned ?T"
    using that spec by (simp add: close_spec_def)
  have 4: "SvStop \<notin> set (ucalls ?T) \<and>
      (\<exists>post r pre. ?T = post @ B (AsDefaultExit (Some x)) r # U EnvClose (Exc x) # pre)"
    if m: "U EnvClose (Exc x) \<in> set ?T" for x
  proof -
    from m have "close_failed ?T" by (auto simp: close_failed_iff)
    with st have s: "SvStop \<notin> set (ucalls ?T)" by blast
    from m obtain post pre where d: "?T = post @ U EnvClose (Exc x) # pre"
      by (auto simp: in_set_conv_decomp)
    have "\<exists>post' r. post = post' @ [B (AsDefaultExit (Some x)) r]"
    proof (cases post rule: rev_cases)
      case Nil
      with d hd show ?thesis by simp
    next
      case (snoc post' e)
      with d have "?T = post' @ e # U EnvClose (Exc x) # pre" by simp
      with ee have "escalate_event e (U EnvClose (Exc x) # pre)"
        using each_event_at[of escalate_event post' e "U EnvClose (Exc x) # pre"] by simp
      with snoc show ?thesis by (simp add: escalate_event_def)
    qed
    then obtain post' r where "post = post' @ [B (AsDefaultExit (Some x)) r]" by blast
    with d have "?T = post' @ B (AsDefaultExit (Some x)) r # U EnvClose (Exc x) # pre" by simp
    with s show ?thesis by blast
  qed
  from 1 2 3 4 show ?thesis by blast
qed

theorem close_after_clean_loop_exit_witness:
  "trace (snd (run nominal_world worker0 3)) =
     [Log WARNING (msg_reached 0 1), B (ManagedSessionExit None) (Ret False),
      B (AsDefaultExit None) (Ret False), U SvStop (Ret ())]
     @ U EnvClose (Ret ())
     # (B ShouldStop (Ret False) # RunGlobalStep (Ret 1) # U Process (Ret ())
        # B ShouldStop (Ret False) # nominal_warmup @ nominal_prologue) \<and>
   loop_exited (max_train_steps worker0)
     (B ShouldStop (Ret False) # RunGlobalStep (Ret 1) # U Process (Ret ())
        # B ShouldStop (Ret False) # nominal_warmup @ nominal_prologue) \<and>
   \<not> str_in (job_name worker0) ''ps'' \<and>
   fst (run nominal_world worker0 3) = Ok () \<and>
   list_all returned (trace (snd (run nominal_world worker0 3))) \<and>
   EnvClose \<in> set (ucalls (trace (snd (run nominal_world worker0 3)))) \<and>
   U EnvClose (Exc (Exception ''close failed''))
     \<in> set (trace (snd (run close_fail_world worker0 3))) \<and>
   SvStop \<notin> set (ucalls (trace (snd (run close_fail_world worker0 3))))"
proof -
  have t: "trace (snd (run nominal_world worker0 3)) =
     [Log WARNING (msg_reached 0 1), B (ManagedSessionExit None) (Ret False),
      B (AsDefaultExit None) (Ret False), U SvStop (Ret ())]
     @ U EnvClose (Ret ())
     # (B ShouldStop (Ret False) # RunGlobalStep (Ret 1) # U Process (Ret ())
        # B ShouldStop (Ret False) # nominal_warmup @ nominal_prologue)"
    by (simp add: run_nominal nominal_trace_def nominal_epilogue_def)
  have p: "\<not> str_in (job_name worker0) ''ps''" "fst (run nominal_world worker0 3) = Ok ()"
    "list_all returned (trace (snd (run nominal_world worker0 3)))"
    by (simp_all add: worker0_fields startswith_def run_nominal nominal_defs)
  note a = close_after_clean_loop_exit[of nominal_world worker0 3]
  note b = close_after_clean_loop_exit[of close_fail_world worker0 3]
  from a t have l: "loop_exited (max_train_steps worker0)
     (B ShouldStop (Ret False) # RunGlobalStep (Ret 1) # U Process (Ret ())
        # B ShouldStop (Ret False) # nominal_warmup @ nominal_prologue)"
    by blast
  from a p have c: "EnvClose \<in> set (ucalls (trace (snd (run nominal_world worker0 3))))"
    by blast
  from b run_close_fail(4)
  have s: "SvStop \<notin> set (ucalls (trace (snd (run close_fail_world worker0 3))))"
    by blast
  from t l p c run_close_fail(4) s show ?thesis by (intro conjI)
qed

section \<open>The parameter-server role\<close>

lemma ps_run:
  assumes "str_in (job_name self) ''ps''"
  shows "ps_spec self (fst (run w self n)) (snd (run w self n))"
  apply (rule run_wp[where Q = "ps_spec self"])
  using assms
  apply (simp only: if_True run_ps_def)
  apply (intro wp_intros)
  apply (simp_all add: ps_spec_def res_of_def)
  done

lemma run_ps_world:
  "run ps_world worker_ps 3 =
     (Blocked,
      \<lparr>trace = [U ServerJoin Hang, Log DEBUG msg_ps_started,
                 U (ServerNew ''ps'' 0 (DeviceFilters [''/job:ps''])) (Ret ()),
                 U ClusterDef (Ret ()), U ResetDefaultGraph (Ret ())],
       global_step = None\<rparr>)"
  by (simp add: prog_defs ps_world_def nominal_world_def worker_ps_def worker0_def)

text \<open>C6: a run whose role name selects the parameter-server branch (any substring of \<open>ps\<close>,
  so \<open>ps\<close> itself) never calls \<open>trainer.process\<close> and constructs neither an environment
  nor a trainer. Once its server has been started, the last thing the run does is
  \<open>server.join()\<close>, and the outcome of the run is the outcome of that call: the run is blocked
  when the join never returns, and it returns only if the join does.\<close>

theorem parameter_server_only_joins:
  assumes "str_in (job_name self) ''ps''"
  shows "Process \<notin> set (ucalls (trace (snd (run w self n)))) \<and>
     (\<forall>c \<in> set (ucalls (trace (snd (run w self n)))). \<not> is_env_new c) \<and>
     (\<forall>rt. TrainerNew rt \<notin> set (trace (snd (run w self n)))) \<and>
     (\<forall>j t c. U (ServerNew j t c) (Ret ()) \<in> set (trace (snd (run w self n))) \<longrightarrow>
        (\<exists>rj pre. trace (snd (run w self n)) = U ServerJoin rj # pre \<and>
           fst (run w self n) = res_of rj))"
  using ps_run[OF assms, of w n]
  by (auto simp: ps_spec_def filter_empty_conv)

theorem parameter_server_only_joins_witness:
  "str_in (job_name worker_ps) ''ps'' \<and>
   Process \<notin> set (ucalls (trace (snd (run ps_world worker_ps 3)))) \<and>
   U (ServerNew ''ps'' 0 (DeviceFilters [''/job:ps''])) (Ret ())
     \<in> set (trace (snd (run ps_world worker_ps 3))) \<and>
   (\<exists>pre. trace (snd (run ps_world worker_ps 3)) = U ServerJoin Hang # pre) \<and>
   fst (run ps_world worker_ps 3) = Blocked"
proof -
  have p: "str_in (job_name worker_ps) ''ps''"
    by (simp add: worker_ps_def startswith_def)
  note inst = parameter_server_only_joins[OF p, of ps_world 3]
  have s: "U (ServerNew ''ps'' 0 (DeviceFilters [''/job:ps''])) (Ret ())
     \<in> set (trace (snd (run ps_world worker_ps 3)))"
    by (simp add: run_ps_world)
  from inst have n: "Process \<notin> set (ucalls (trace (snd (run ps_world worker_ps 3))))"
    by blast
  from inst s obtain rj pre where j: "trace (snd (run ps_world worker_ps 3)) = U ServerJoin rj # pre"
    "fst (run ps_world worker_ps 3) = res_of rj"
    by blast
  from j(1) have "rj = Hang" by (simp add: run_ps_world)
  with j have "\<exists>pre. trace (snd (run ps_world worker_ps 3)) = U ServerJoin Hang # pre"
    "fst (run ps_world worker_ps 3) = Blocked"
    by (auto simp: res_of_def)
  with p n s show ?thesis by (intro conjI)
qed

section \<open>Failure to make the environment\<close>

lemma env_failed_var_logs [simp]: "env_failed (var_logs vs @ h) = env_failed h"
proof -
  have "env_failed (rev ls @ h) = env_failed h" if "\<forall>e\<in>set ls. \<exists>l m. e = Log l m" for ls
    using that by (induction ls arbitrary: h) auto
  then show ?thesis by (simp add: var_logs_def)
qed

lemma env_failed_iff: "env_failed h \<longleftrightarrow> (\<exists>c x. U c (Exc x) \<in> set h \<and> is_env_new c)"
proof (induction h rule: env_failed.induct)
  case 1
  then show ?case by simp
next
  case (2 k x h)
  show ?case by (auto intro: exI[of _ "EnvNewKwargs k"])
next
  case (3 i x h)
  show ?case by (auto intro: exI[of _ "EnvNewGymId i"])
qed (auto elim: is_env_new.elims)

lemma env_run: "env_spec self (fst (run w self n)) (snd (run w self n))"
  apply (rule run_wp[where Q = "env_spec self"])
  unfolding run_defs
  apply (cases "test_mode self"; simp only: split_mode;
         intro wp_intros wp_run_loop[where I = "\<lambda>h g. \<not> env_failed h"])
  apply (simp_all add: env_spec_def)
  done


lemma run_env_fail:
  "U (EnvNewKwargs [(''data_master'', ''True'')]) (Exc (Exception ''no data''))
     \<in> set (trace (snd (run env_fail_world worker0 3)))"
  by (simp add: prog_defs env_fail_world_def nominal_world_def worker0_fields)

text \<open>C7: if the construction of the environment raises, in either mode, \<open>run\<close> ends by
  raising \<open>SystemExit\<close> with the message \<open> Worker_<rank> failed to make ... environment\<close>, in
  which the rank is written as a decimal numeral and can be read back, so the process exits
  with status 1; the failed construction is the last event of the run and the only
  construction attempted, and there is no trainer, no session and no training iteration.\<close>

theorem env_construction_failure_is_fatal:
  assumes "U c (Exc x) \<in> set (trace (snd (run w self n)))" and "is_env_new c"
  shows "fst (run w self n) =
       Raised (SystemExit ('' Worker_'' @ str_of_int (task self) @
         (if test_mode self then '' failed to make Atari Gym environment''
          else '' failed to make BTgym environment''))) \<and>
     (\<exists>m. fst (run w self n) = Raised (SystemExit m) \<and> rank_in_failure m = task self) \<and>
     exit_status (fst (run w self n)) = Some 1 \<and>
     (\<exists>pre. trace (snd (run w self n)) = U c (Exc x) # pre \<and>
        (\<forall>c' \<in> set (ucalls pre). \<not> is_env_new c')) \<and>
     (\<forall>rt. TrainerNew rt \<notin> set (trace (snd (run w self n)))) \<and>
     (\<forall>cfg. ManagedSessionEnter cfg \<notin> set (ucalls (trace (snd (run w self n))))) \<and>
     Process \<notin> set (ucalls (trace (snd (run w self n))))"
proof -
  let ?T = "trace (snd (run w self n))"
  from assms have f: "env_failed ?T" by (auto simp: env_failed_iff)
  with env_run[of self w n]
  have r: "fst (run w self n) = Raised (SystemExit (if test_mode self then msg_atari_failed (task self)
                                 else msg_btgym_failed (task self)))"
    and shape: "case ?T of
           U c (Exc x) # pre \<Rightarrow> is_env_new c \<and> filter is_env_new (ucalls pre) = []
         | _ \<Rightarrow> False"
    and rest: "\<forall>rt. TrainerNew rt \<notin> set ?T"
      "\<forall>cfg. ManagedSessionEnter cfg \<notin> set (ucalls ?T)"
      "Process \<notin> set (ucalls ?T)"
    by (simp_all add: env_spec_def)
  from shape obtain c' x' pre where d: "?T = U c' (Exc x') # pre"
    and none: "filter is_env_new (ucalls pre) = []"
    by (auto split: list.splits event.splits reply.splits)
  from none have no: "\<forall>c' \<in> set (ucalls pre). \<not> is_env_new c'"
    by (auto simp: filter_empty_conv)
  have "U c (Exc x) \<notin> set pre"
  proof
    assume "U c (Exc x) \<in> set pre"
    then have "c \<in> set (ucalls pre)" by (auto simp: in_set_ucalls)
    with no assms(2) show False by blast
  qed
  with assms(1) d have "c' = c" "x' = x" by auto
  with d no have 1: "\<exists>pre. ?T = U c (Exc x) # pre \<and> (\<forall>c' \<in> set (ucalls pre). \<not> is_env_new c')"
    by blast
  from r have 2: "fst (run w self n) =
       Raised (SystemExit ('' Worker_'' @ str_of_int (task self) @
         (if test_mode self then '' failed to make Atari Gym environment''
          else '' failed to make BTgym environment'')))"
    by (simp add: msg_atari_failed_def msg_btgym_failed_def)
  have 3: "\<exists>m. fst (run w self n) = Raised (SystemExit m) \<and> rank_in_failure m = task self"
  proof (cases "test_mode self")
    case True
    with r have "fst (run w self n) = Raised (SystemExit
        ('' Worker_'' @ str_of_int (task self) @ '' failed to make Atari Gym environment''))"
      by (simp only: msg_atari_failed_def if_True)
    with rank_in_failure_msg(2)[of "task self"] show ?thesis by (intro exI conjI)
  next
    case False
    with r have "fst (run w self n) = Raised (SystemExit
        ('' Worker_'' @ str_of_int (task self) @ '' failed to make BTgym environment''))"
      by (simp only: msg_btgym_failed_def if_False)
    with rank_in_failure_msg(1)[of "task self"] show ?thesis by (intro exI conjI)
  qed
  from r have 5: "exit_status (fst (run w self n)) = Some 1"
    by (simp add: exit_status_def)
  from 2 3 5 1 rest show ?thesis by (intro conjI)
qed

theorem env_construction_failure_is_fatal_witness:
  "U (EnvNewKwargs [(''data_master'', ''True'')]) (Exc (Exception ''no data''))
     \<in> set (trace (snd (run env_fail_world worker0 3))) \<and>
   is_env_new (EnvNewKwargs [(''data_master'', ''True'')]) \<and>
   fst (run env_fail_world worker0 3) =
     Raised (SystemExit '' Worker_0 failed to make BTgym environment'') \<and>
   rank_in_failure '' Worker_0 failed to make BTgym environment'' = 0 \<and>
   exit_status (fst (run env_fail_world worker0 3)) = Some 1 \<and>
   Process \<notin> set (ucalls (trace (snd (run env_fail_world worker0 3))))"
proof -
  have e: "is_env_new (EnvNewKwargs [(''data_master'', ''True'')])" by simp
  note inst = env_construction_failure_is_fatal[OF run_env_fail e]
  from inst have m: "fst (run env_fail_world worker0 3) =
     Raised (SystemExit '' Worker_0 failed to make BTgym environment'')"
    by (simp add: worker0_fields str_of_int_0)
  from inst obtain m' where "fst (run env_fail_world worker0 3) = Raised (SystemExit m')"
    and "rank_in_failure m' = task worker0"
    by blast
  with m have k: "rank_in_failure '' Worker_0 failed to make BTgym environment'' = 0"
    by (simp add: worker0_fields)
  from inst have "exit_status (fst (run env_fail_world worker0 3)) = Some 1"
    "Process \<notin> set (ucalls (trace (snd (run env_fail_world worker0 3))))"
    by blast+
  with m k show ?thesis using run_env_fail e by (intro conjI)
qed

section \<open>Role dispatch\<close>

lemma cluster_defined_var_logs [simp]: "cluster_defined (var_logs vs @ h) = cluster_defined h"
proof -
  have "cluster_defined (rev ls @ h) = cluster_defined h" if "\<forall>e\<in>set ls. \<exists>l m. e = Log l m" for ls
    using that by (induction ls arbitrary: h) auto
  then show ?thesis by (simp add: var_logs_def)
qed

lemma cluster_defined_iff: "cluster_defined h \<longleftrightarrow> U ClusterDef (Ret ()) \<in> set h"
  by (induction h rule: cluster_defined.induct) auto

lemma server_run:
  assumes "\<not> str_in (job_name self) ''ps''"
  shows "server_spec self (trace (snd (run w self n)))"
  apply (rule run_wp[where Q = "\<lambda>r s. server_spec self (trace s)"])
  using assms
  apply (simp only: if_False)
  unfolding run_defs
  apply (cases "test_mode self"; simp only: split_mode;
         intro wp_intros wp_run_loop[where I = "\<lambda>h g.
           ServerNew ''worker'' (task self) (Parallelism 1 2) \<in> set (ucalls h)"])
  apply (simp_all add: server_spec_def)
  done

lemma run_loop_job_name: "run_loop w (self\<lparr>job_name := j\<rparr>) n = run_loop w self n"
proof (induction n)
  case 0
  show ?case by simp
next
  case (Suc n)
  show ?case unfolding run_loop.simps Suc.IH by (simp cong: if_cong)
qed

lemma run_worker_job_name: "run_worker w (self\<lparr>job_name := j\<rparr>) n = run_worker w self n"
  by (simp add: run_worker_def run_make_env_def run_session_body_def run_loop_job_name
      supervisor_of_def session_config_def summary_dir_def cong: if_cong)

lemma run_foo:
  "fst (run nominal_world (worker0\<lparr>job_name := ''foo''\<rparr>) 3) = Ok ()"
  "U (ServerNew ''worker'' 0 (Parallelism 1 2)) (Ret ())
     \<in> set (trace (snd (run nominal_world (worker0\<lparr>job_name := ''foo''\<rparr>) 3)))"
  "U (EnvNewKwargs [(''data_master'', ''True'')]) (Ret ())
     \<in> set (trace (snd (run nominal_world (worker0\<lparr>job_name := ''foo''\<rparr>) 3)))"
  "TrainerNew (Ret trainer0)
     \<in> set (trace (snd (run nominal_world (worker0\<lparr>job_name := ''foo''\<rparr>) 3)))"
  "U ClusterDef (Ret ())
     \<in> set (trace (snd (run nominal_world (worker0\<lparr>job_name := ''foo''\<rparr>) 3)))"
  by (simp_all add: prog_defs nominal_world_def worker0_def worker0_fields
      variables_to_save_trainer0 eval_nat_numeral)

text \<open>C1 as stated fails: with the role name \<open>foo\<close>, which is neither \<open>ps\<close> nor \<open>worker\<close>, the
  run starts a server, constructs the environment and the trainer, and returns normally.\<close>

theorem unknown_role_is_fatal_counterexample:
  "job_name (worker0\<lparr>job_name := ''foo''\<rparr>) \<noteq> ''ps'' \<and>
   job_name (worker0\<lparr>job_name := ''foo''\<rparr>) \<noteq> ''worker'' \<and>
   fst (run nominal_world (worker0\<lparr>job_name := ''foo''\<rparr>) 3) = Ok () \<and>
   U (ServerNew ''worker'' 0 (Parallelism 1 2)) (Ret ())
     \<in> set (trace (snd (run nominal_world (worker0\<lparr>job_name := ''foo''\<rparr>) 3))) \<and>
   U (EnvNewKwargs [(''data_master'', ''True'')]) (Ret ())
     \<in> set (trace (snd (run nominal_world (worker0\<lparr>job_name := ''foo''\<rparr>) 3))) \<and>
   TrainerNew (Ret trainer0)
     \<in> set (trace (snd (run nominal_world (worker0\<lparr>job_name := ''foo''\<rparr>) 3)))"
proof -
  have "job_name (worker0\<lparr>job_name := ''foo''\<rparr>) \<noteq> ''ps''"
    "job_name (worker0\<lparr>job_name := ''foo''\<rparr>) \<noteq> ''worker''"
    by simp_all
  with run_foo(1-4) show ?thesis by (intro conjI)
qed

text \<open>C1, amended: the role dispatch has no error path. A role name that is not a substring
  of \<open>ps\<close> (so \<open>worker\<close>, and every unrecognized name) takes the worker path: the run is the
  run of the role \<open>worker\<close>, and once the cluster definition is built a server with job name
  \<open>worker\<close> is started.\<close>

theorem unrecognized_role_runs_as_worker:
  assumes "job_name self \<notin> {[], ''p'', ''s'', ''ps''}"
  shows "run w self n = run w (self\<lparr>job_name := ''worker''\<rparr>) n \<and>
     (U ClusterDef (Ret ()) \<in> set (trace (snd (run w self n))) \<longrightarrow>
        (\<exists>r. U (ServerNew ''worker'' (task self) (Parallelism 1 2)) r
                \<in> set (trace (snd (run w self n)))))"
proof -
  from assms have np: "\<not> str_in (job_name self) ''ps''"
    by (simp add: str_in_ps del: str_in.simps)
  have nw: "\<not> str_in ''worker'' ''ps''"
    by (simp add: str_in_ps del: str_in.simps)
  have "run w self n = run w (self\<lparr>job_name := ''worker''\<rparr>) n"
    using np nw by (simp add: run_def run_worker_job_name)
  moreover have "\<exists>r. U (ServerNew ''worker'' (task self) (Parallelism 1 2)) r
                \<in> set (trace (snd (run w self n)))"
    if "U ClusterDef (Ret ()) \<in> set (trace (snd (run w self n)))"
    using that server_run[OF np, of w n]
    by (simp add: server_spec_def cluster_defined_iff in_set_ucalls)
  ultimately show ?thesis by blast
qed

theorem unrecognized_role_runs_as_worker_witness:
  "job_name (worker0\<lparr>job_name := ''foo''\<rparr>) \<notin> {[], ''p'', ''s'', ''ps''} \<and>
   run nominal_world (worker0\<lparr>job_name := ''foo''\<rparr>) 3
     = run nominal_world (worker0\<lparr>job_name := ''foo'', job_name := ''worker''\<rparr>) 3 \<and>
   U ClusterDef (Ret ())
     \<in> set (trace (snd (run nominal_world (worker0\<lparr>job_name := ''foo''\<rparr>) 3))) \<and>
   (\<exists>r. U (ServerNew ''worker'' (task (worker0\<lparr>job_name := ''foo''\<rparr>)) (Parallelism 1 2)) r
      \<in> set (trace (snd (run nominal_world (worker0\<lparr>job_name := ''foo''\<rparr>) 3))))"
proof -
  have h: "job_name (worker0\<lparr>job_name := ''foo''\<rparr>) \<notin> {[], ''p'', ''s'', ''ps''}"
    by simp
  note inst = unrecognized_role_runs_as_worker[OF h, of nominal_world 3]
  from inst have a: "run nominal_world (worker0\<lparr>job_name := ''foo''\<rparr>) 3
     = run nominal_world (worker0\<lparr>job_name := ''foo'', job_name := ''worker''\<rparr>) 3"
    by blast
  from inst run_foo(5)
  have b: "\<exists>r. U (ServerNew ''worker'' (task (worker0\<lparr>job_name := ''foo''\<rparr>)) (Parallelism 1 2)) r
      \<in> set (trace (snd (run nominal_world (worker0\<lparr>job_name := ''foo''\<rparr>) 3)))"
    by blast
  from h a run_foo(5) b show ?thesis by (intro conjI)
qed

section \<open>The saver\<close>

text \<open>C10: whatever \<open>write_meta_graph\<close> the caller passes, \<open>FastSaver.save\<close> makes exactly
  one call of the underlying \<open>Saver.save\<close>, with \<open>write_meta_graph\<close> false and every other
  argument as the caller gave it.\<close>

theorem FastSaver_save_disables_meta_graph:
  "trace (snd (FastSaver_save w a s)) =
     U (SaverSave (a\<lparr>a_write_meta_graph := False\<rparr>))
       (unit_reply w (trace s) (SaverSave (a\<lparr>a_write_meta_graph := False\<rparr>))) # trace s"
  by (cases a) (simp add: FastSaver_save_def call_unit_def Let_def)

end
